theory Spec2Isabelle
  imports Complex_Main "HOL-Library.Product_Lexorder"
begin

section \<open>Python values shared by the functions of \<open>rdkit_easy.py\<close>\<close>

text \<open>
  The module is glue around RDKit, pandas, PIL and the operating system. The calls into
  the chemistry toolkit (rendering, fingerprints, similarity, descriptors), into PIL,
  \<open>base64\<close> and the file system are parameters of the model, so that a theorem about a
  function of the module holds for whatever these calls do. The pandas operations and
  the clustering routine \<open>Butina.ClusterData\<close> are written out as the libraries define
  them, next to the control flow and the string formatting of the module itself.

  An exception is a value. \<open>RuntimeError\<close> and \<open>ValueError\<close> stand for an instance of
  that class (or of a subclass of it), which is what an \<open>except\<close> clause tests;
  \<open>OtherError\<close> is an exception of any class that is neither.
\<close>

datatype exn = RuntimeError | ValueError | KeyError | IndexError | OtherError string

text \<open>The value a call returns: \<open>None\<close>, a string, or a reference to an object.\<close>

datatype pyval = PyNone | PyStr string | PyRef nat

datatype level = INFO | WARNING

subsection \<open>Strings\<close>

text \<open>
  \<open>str.lower\<close> on ASCII text: the letters \<open>A\<close> to \<open>Z\<close> move to \<open>a\<close> to \<open>z\<close>, every other
  character stays.
\<close>

definition lower_char :: "char \<Rightarrow> char" where
  "lower_char c =
     (if 65 \<le> (of_char c :: nat) \<and> (of_char c :: nat) \<le> 90
      then char_of ((of_char c :: nat) + 32) else c)"

definition lower :: "string \<Rightarrow> string" where
  "lower s = map lower_char s"

text \<open>
  \<open>s.replace(old, new)\<close>: every occurrence of \<open>old\<close>, found from the left and without
  overlap, becomes \<open>new\<close>. With an empty \<open>old\<close> Python puts \<open>new\<close> before every character and
  at the end.
\<close>

function replace :: "string \<Rightarrow> string \<Rightarrow> string \<Rightarrow> string" where
  "replace old new s =
     (if old = [] then new @ concat (map (\<lambda>c. c # new) s)
      else if s = [] then []
      else if take (length old) s = old then new @ replace old new (drop (length old) s)
      else hd s # replace old new (tl s))"
  by pat_completeness auto
termination
  by (relation "measure (\<lambda>(old, new, s). length s)") auto

declare replace.simps [simp del]

text \<open>\<open>str(n)\<close> of an integer, as an f-string or \<open>%s\<close> prints it.\<close>

function str_nat :: "nat \<Rightarrow> string" where
  "str_nat n =
     (if n < 10 then [char_of (48 + n)]
      else str_nat (n div 10) @ [char_of (48 + n mod 10)])"
  by pat_completeness auto
termination
  by (relation "measure id") auto

declare str_nat.simps [simp del]

definition str_int :: "int \<Rightarrow> string" where
  "str_int i = (if i < 0 then CHR ''-'' # str_nat (nat (- i)) else str_nat (nat i))"

section \<open>Structure rendering\<close>

text \<open>
  The calls of the rendering functions into RDKit, PIL, \<open>base64\<close> and the operating
  system. \<open>'mol\<close> is the state of a molecule object, \<open>'drawer\<close> that of an
  \<open>rdMolDraw2D.MolDraw2DSVG\<close> object, \<open>'img\<close> a PIL image, \<open>'fs\<close> the file system. A call that
  can fail returns \<open>Inl\<close> of the exception. An atom is named by the molecule and its index.
  Text and bytes are both \<open>string\<close>, so \<open>encode('utf-8')\<close> and \<open>decode()\<close> are the identity.
  The three file-system calls return the file system they leave behind and the exception
  they raised, if any.
\<close>

record ('mol, 'drawer, 'img, 'fs) toolkit =
  GetAtomWithIdx :: "'mol \<Rightarrow> nat \<Rightarrow> exn + nat"
  GetExplicitValence :: "'mol \<Rightarrow> nat \<Rightarrow> exn + int"
  UpdatePropertyCache :: "'mol \<Rightarrow> bool \<Rightarrow> exn + 'mol"
  PrepareMolForDrawing :: "'mol \<Rightarrow> bool \<Rightarrow> exn + 'mol"
  MolDraw2DSVG :: "int \<Rightarrow> int \<Rightarrow> exn + 'drawer"
  DrawMolecule :: "'drawer \<Rightarrow> 'mol \<Rightarrow> exn + 'drawer"
  FinishDrawing :: "'drawer \<Rightarrow> exn + 'drawer"
  GetDrawingText :: "'drawer \<Rightarrow> exn + string"
  MolToImage :: "'mol \<Rightarrow> int \<times> int \<Rightarrow> exn + 'img"
  save_bytes :: "'img \<Rightarrow> exn + string"
  b64encode :: "string \<Rightarrow> string"
  makedirs :: "string \<Rightarrow> 'fs \<Rightarrow> 'fs \<times> exn option"
  save_file :: "'img \<Rightarrow> string \<Rightarrow> 'fs \<Rightarrow> 'fs \<times> exn option"
  write_text :: "string \<Rightarrow> string \<Rightarrow> 'fs \<Rightarrow> 'fs \<times> exn option"

subsection \<open>\<open>mol_to_svg\<close>\<close>

text \<open>
  Lines 243 to 246: the first \<open>try\<close>. Reading the explicit valence of atom 0 is done for its
  exception only; a \<open>RuntimeError\<close> is answered with \<open>mol.UpdatePropertyCache(False)\<close>, which
  changes the molecule in place, any other exception leaves the function. The result is
  the molecule as the rest of the function sees it.
\<close>

definition refresh_valence :: "('mol, 'drawer, 'img, 'fs) toolkit \<Rightarrow> 'mol \<Rightarrow> exn + 'mol" where
  "refresh_valence tk mol =
     (case (case GetAtomWithIdx tk mol 0 of
              Inl e \<Rightarrow> Inl e
            | Inr a \<Rightarrow> GetExplicitValence tk mol a) of
        Inr v \<Rightarrow> Inr mol
      | Inl RuntimeError \<Rightarrow> UpdatePropertyCache tk mol False
      | Inl e \<Rightarrow> Inl e)"

text \<open>
  Lines 247 to 251: the second \<open>try\<close>. A \<open>ValueError\<close> of
  \<open>PrepareMolForDrawing(mol, kekulize=True)\<close> is answered with the same call with
  \<open>kekulize=False\<close>.
\<close>

definition prepare_mol :: "('mol, 'drawer, 'img, 'fs) toolkit \<Rightarrow> 'mol \<Rightarrow> exn + 'mol" where
  "prepare_mol tk mol =
     (case PrepareMolForDrawing tk mol True of
        Inr mc_mol \<Rightarrow> Inr mc_mol
      | Inl ValueError \<Rightarrow> PrepareMolForDrawing tk mol False
      | Inl e \<Rightarrow> Inl e)"

text \<open>Lines 252 to 255: the drawer is made, draws, finishes and gives its text.\<close>

definition draw_svg ::
  "('mol, 'drawer, 'img, 'fs) toolkit \<Rightarrow> 'mol \<Rightarrow> int \<times> int \<Rightarrow> exn + string" where
  "draw_svg tk mc_mol sz =
     (case MolDraw2DSVG tk (fst sz) (snd sz) of
        Inl e \<Rightarrow> Inl e
      | Inr drawer \<Rightarrow>
          (case DrawMolecule tk drawer mc_mol of
             Inl e \<Rightarrow> Inl e
           | Inr drawer1 \<Rightarrow>
               (case FinishDrawing tk drawer1 of
                  Inl e \<Rightarrow> Inl e
                | Inr drawer2 \<Rightarrow> GetDrawingText tk drawer2)))"

text \<open>
  Lines 247 to 258 are \<open>render_svg\<close>: the molecule is prepared and drawn, and the two
  replacements of lines 256 and 257 are done on the text.
\<close>

definition render_svg ::
  "('mol, 'drawer, 'img, 'fs) toolkit \<Rightarrow> 'mol \<Rightarrow> int \<times> int \<Rightarrow> exn + string" where
  "render_svg tk mol sz =
     (case prepare_mol tk mol of
        Inl e \<Rightarrow> Inl e
      | Inr mc_mol \<Rightarrow>
          (case draw_svg tk mc_mol sz of
             Inl e \<Rightarrow> Inl e
           | Inr svg \<Rightarrow> Inr (replace ''xmlns:svg'' ''xmlns'' (replace ''svg:'' '''' svg))))"

text \<open>
  The whole function. It returns the molecule object's state when it leaves (the
  property cache may have been refreshed) and either the exception that left it or the
  SVG text.
\<close>

definition mol_to_svg ::
  "('mol, 'drawer, 'img, 'fs) toolkit \<Rightarrow> 'mol \<Rightarrow> int \<times> int \<Rightarrow> 'mol \<times> (exn + string)" where
  "mol_to_svg tk mol sz =
     (case refresh_valence tk mol of
        Inl e \<Rightarrow> (mol, Inl e)
      | Inr mol1 \<Rightarrow> (mol1, render_svg tk mol1 sz))"

subsection \<open>\<open>mol_to_pil\<close>, \<open>save_png\<close>, \<open>save_svg\<close>\<close>

definition mol_to_pil ::
  "('mol, 'drawer, 'img, 'fs) toolkit \<Rightarrow> 'mol \<Rightarrow> int \<times> int \<Rightarrow> exn + 'img" where
  "mol_to_pil tk mol sz = MolToImage tk mol (fst sz, snd sz)"

text \<open>
  What the rendering functions work on: the molecule object, the records the \<open>ATOM\<close>
  logger was handed, and the file system.
\<close>

record ('mol, 'fs) world =
  molecule :: 'mol
  log :: "(level \<times> string) list"
  fs :: 'fs

definition save_png ::
  "('mol, 'drawer, 'img, 'fs) toolkit \<Rightarrow> string \<Rightarrow> int \<times> int \<Rightarrow> ('mol, 'fs) world
     \<Rightarrow> ('mol, 'fs) world \<times> exn option" where
  "save_png tk name sz w =
     (case mol_to_pil tk (molecule w) sz of
        Inl e \<Rightarrow> (w, Some e)
      | Inr pil \<Rightarrow>
          (case save_file tk pil name (fs w) of (fs1, r) \<Rightarrow> (w\<lparr>fs := fs1\<rparr>, r)))"

definition save_svg ::
  "('mol, 'drawer, 'img, 'fs) toolkit \<Rightarrow> string \<Rightarrow> int \<times> int \<Rightarrow> ('mol, 'fs) world
     \<Rightarrow> ('mol, 'fs) world \<times> exn option" where
  "save_svg tk name sz w =
     (case mol_to_svg tk (molecule w) sz of
        (mol1, Inl e) \<Rightarrow> (w\<lparr>molecule := mol1\<rparr>, Some e)
      | (mol1, Inr svg) \<Rightarrow>
          (case write_text tk name svg (fs w) of
             (fs1, r) \<Rightarrow> (w\<lparr>molecule := mol1, fs := fs1\<rparr>, r)))"

subsection \<open>\<open>mol_to_html\<close>\<close>

definition warning_text :: string where
  "warning_text = ''Image type not recognized. Choose between png and svg.''"

definition info_text :: string where
  "info_text =
     ''Warning: embed=True will result in large data structures if you have a lot of molecules.''"

text \<open>The tag of lines 184 and 193; \<open>CHR 0x27\<close> is the single quote.\<close>

definition img_tag :: "string \<Rightarrow> int \<Rightarrow> string" where
  "img_tag src width =
     ''<img src='' @ [CHR 0x27] @ src @ [CHR 0x27] @ '' style='' @ [CHR 0x27]
       @ ''width:'' @ str_int width @ ''px;'' @ [CHR 0x27] @ ''>''"

text \<open>
  Lines 175 to 183, the data URL of the embedded image. The \<open>if\<close>/\<open>elif\<close> has no \<open>else\<close>; the
  guard of line 169 has left only the two types, so the second test is the \<open>else\<close> here.
\<close>

definition data_url ::
  "('mol, 'drawer, 'img, 'fs) toolkit \<Rightarrow> string \<Rightarrow> int \<Rightarrow> int \<Rightarrow> 'mol \<Rightarrow> 'mol \<times> (exn + string)" where
  "data_url tk type width height mol =
     (if lower type = ''png'' then
        (case mol_to_pil tk mol (width, height) of
           Inl e \<Rightarrow> (mol, Inl e)
         | Inr img \<Rightarrow>
             (case save_bytes tk img of
                Inl e \<Rightarrow> (mol, Inl e)
              | Inr imgByteArr \<Rightarrow> (mol, Inr (''data:image/png;base64,'' @ b64encode tk imgByteArr))))
      else
        (case mol_to_svg tk mol (width, height) of
           (mol1, Inl e) \<Rightarrow> (mol1, Inl e)
         | (mol1, Inr img) \<Rightarrow> (mol1, Inr (''data:image/svg+xml;base64,'' @ b64encode tk img))))"

definition mol_to_html ::
  "('mol, 'drawer, 'img, 'fs) toolkit \<Rightarrow> string \<Rightarrow> string \<Rightarrow> string \<Rightarrow> bool \<Rightarrow> int \<Rightarrow> int
     \<Rightarrow> ('mol, 'fs) world \<Rightarrow> ('mol, 'fs) world \<times> (exn + pyval)" where
  "mol_to_html tk name type directory embed' width height w =
     (if lower type \<notin> set [''png'', ''svg''] then
        (w\<lparr>log := log w @ [(WARNING, warning_text)]\<rparr>, Inr PyNone)
      else if embed' then
        (let w1 = w\<lparr>log := log w @ [(INFO, info_text)]\<rparr> in
         case data_url tk type width height (molecule w1) of
           (mol1, Inl e) \<Rightarrow> (w1\<lparr>molecule := mol1\<rparr>, Inl e)
         | (mol1, Inr url) \<Rightarrow> (w1\<lparr>molecule := mol1\<rparr>, Inr (PyStr (img_tag url width))))
      else
        (let img_file = directory @ ''/'' @ name in
         case makedirs tk directory (fs w) of
           (fs1, Some e) \<Rightarrow> (w\<lparr>fs := fs1\<rparr>, Inl e)
         | (fs1, None) \<Rightarrow>
             (case (if lower type = ''png''
                    then save_png tk img_file (width, height) (w\<lparr>fs := fs1\<rparr>)
                    else save_svg tk img_file (width, height) (w\<lparr>fs := fs1\<rparr>)) of
                (w2, Some e) \<Rightarrow> (w2, Inl e)
              | (w2, None) \<Rightarrow> (w2, Inr (PyStr (img_tag img_file width))))))"

section \<open>Similarity clustering\<close>

subsection \<open>The library calls of \<open>cluster_fingerprints\<close>\<close>

text \<open>
  \<open>DataStructs.BulkTanimotoSimilarity(fp, fps)\<close> is the list of the similarities of \<open>fp\<close> to
  each member of \<open>fps\<close>, in order. The similarity of two fingerprints is the parameter
  \<open>sim\<close>; its values are Python floats, of which the model uses nothing but the
  subtraction from 1 that line 137 does and the comparison \<open>\<le>\<close> with the cutoff.
\<close>

definition BulkTanimotoSimilarity :: "('fp \<Rightarrow> 'fp \<Rightarrow> 'd) \<Rightarrow> 'fp \<Rightarrow> 'fp list \<Rightarrow> 'd list" where
  "BulkTanimotoSimilarity sim fp fps = map (sim fp) fps"

text \<open>
  Modelled from the spec: \<open>Butina.ClusterData\<close>, the clustering routine of RDKit
  (\<open>rdkit.ML.Cluster.Butina\<close>), which line 140 calls and which is not among the sources of
  this repository. The spec (section 4.3) describes it as a greedy sphere exclusion:
  points are processed in a fixed order, each still unassigned point becomes a centroid
  and absorbs the unassigned points within the cutoff, the centroid is listed first. The
  definitions below write that out the way the library does it for the arguments of
  line 140 (\<open>isDistData=True\<close>, no reordering):
  \<^item> \<open>nbr_row\<close> and \<open>nbr_rows\<close>: the neighbour lists. The distance matrix \<open>data\<close> is read
    front to back through the counter \<open>dmIdx\<close>, row \<open>i\<close> holding the distances of point \<open>i\<close>
    to the points \<open>j < i\<close>; when a distance is \<open>\<le> distThresh\<close>, \<open>j\<close> is appended to the list
    of \<open>i\<close> and \<open>i\<close> to the list of \<open>j\<close>. Reading past the end of \<open>data\<close> raises
    \<open>IndexError\<close>.
  \<^item> the fixed order \<open>tLists\<close>: the pairs (number of neighbours, point), sorted in
    descending order, so that a point with more neighbours comes first and of two
    points with equally many the one with the larger index.
  \<^item> \<open>cluster_loop\<close>: the points are taken in that order; a point already absorbed
    (\<open>seen\<close>) is skipped, any other opens a cluster \<open>tRes\<close> with itself first and absorbs
    (\<open>absorb\<close>) those of its neighbours that are not yet \<open>seen\<close>, in the order of its
    neighbour list, marking them \<open>seen\<close>.
  All indices into \<open>nbrLists\<close> and \<open>seen\<close> come from \<open>range(nPts)\<close>, and both lists have
  \<open>nPts\<close> entries.
\<close>

primrec nbr_row ::
  "'d::ord list \<Rightarrow> 'd \<Rightarrow> nat \<Rightarrow> nat list \<Rightarrow> nat list list \<times> nat \<Rightarrow> exn + nat list list \<times> nat" where
  "nbr_row data distThresh i [] st = Inr st"
| "nbr_row data distThresh i (j # js) st =
     (case st of (nbrLists, dmIdx) \<Rightarrow>
        if dmIdx < length data then
          (let dij = data ! dmIdx;
               nbrLists1 = (if dij \<le> distThresh
                            then (let nl = nbrLists[i := nbrLists ! i @ [j]]
                                  in nl[j := nl ! j @ [i]])
                            else nbrLists)
           in nbr_row data distThresh i js (nbrLists1, dmIdx + 1))
        else Inl IndexError)"

primrec nbr_rows ::
  "'d::ord list \<Rightarrow> 'd \<Rightarrow> nat list \<Rightarrow> nat list list \<times> nat \<Rightarrow> exn + nat list list \<times> nat" where
  "nbr_rows data distThresh [] st = Inr st"
| "nbr_rows data distThresh (i # is) st =
     (case nbr_row data distThresh i [0..<i] st of
        Inl e \<Rightarrow> Inl e
      | Inr st1 \<Rightarrow> nbr_rows data distThresh is st1)"

primrec absorb :: "nat list \<Rightarrow> nat list \<times> bool list \<Rightarrow> nat list \<times> bool list" where
  "absorb [] st = st"
| "absorb (nbr # nbrs) st =
     (case st of (tRes, seen) \<Rightarrow>
        if \<not> seen ! nbr then absorb nbrs (tRes @ [nbr], seen[nbr := True])
        else absorb nbrs (tRes, seen))"

fun cluster_loop :: "nat list list \<Rightarrow> (nat \<times> nat) list \<Rightarrow> bool list \<Rightarrow> nat list list" where
  "cluster_loop nbrLists [] seen = []"
| "cluster_loop nbrLists ((n, idx) # tLists) seen =
     (if seen ! idx then cluster_loop nbrLists tLists seen
      else (case absorb (nbrLists ! idx) ([idx], seen) of
              (tRes, seen1) \<Rightarrow> tRes # cluster_loop nbrLists tLists seen1))"

definition ClusterData :: "'d::ord list \<Rightarrow> nat \<Rightarrow> 'd \<Rightarrow> exn + nat list list" where
  "ClusterData data nPts distThresh =
     (case nbr_rows data distThresh [0..<nPts] (replicate nPts [], 0) of
        Inl e \<Rightarrow> Inl e
      | Inr (nbrLists, dmIdx) \<Rightarrow>
          (let tLists = rev (sort (map (\<lambda>(x, y). (length y, x)) (enumerate 0 nbrLists)))
           in Inr (cluster_loop nbrLists tLists (replicate nPts False))))"

subsection \<open>\<open>cluster_fingerprints\<close>\<close>

text \<open>
  Lines 133 to 141. The loop of line 135 appends, for \<open>i = 1, \<dots>, nfps - 1\<close>, the distances
  \<open>1 - x\<close> of fingerprint \<open>i\<close> to the fingerprints before it; the tuple of clusters that
  \<open>ClusterData\<close> returns is a list of lists of indices here.
\<close>

definition cluster_fingerprints ::
  "('fp \<Rightarrow> 'fp \<Rightarrow> 'd::{ord,one,minus}) \<Rightarrow> 'fp list \<Rightarrow> 'd \<Rightarrow> exn + nat list list" where
  "cluster_fingerprints sim fps cutoff =
     (let nfps = length fps;
          dists = concat (map (\<lambda>i. map (\<lambda>x. 1 - x)
                                   (BulkTanimotoSimilarity sim (fps ! i) (take i fps)))
                            [1..<nfps])
      in ClusterData dists nfps cutoff)"

subsection \<open>The reference algorithm of the spec\<close>

text \<open>
  Two points are within the cutoff when the distance line 137 computes for them, that
  of the fingerprint with the larger index to the one with the smaller index, is at
  most the cutoff. The neighbours of a point are the other points within the cutoff of
  it, in increasing order.
\<close>

definition within_cutoff ::
  "('fp \<Rightarrow> 'fp \<Rightarrow> 'd::{ord,one,minus}) \<Rightarrow> 'fp list \<Rightarrow> 'd \<Rightarrow> nat \<Rightarrow> nat \<Rightarrow> bool" where
  "within_cutoff sim fps cutoff p q = (1 - sim (fps ! max p q) (fps ! min p q) \<le> cutoff)"

definition neighbours :: "(nat \<Rightarrow> nat \<Rightarrow> bool) \<Rightarrow> nat \<Rightarrow> nat \<Rightarrow> nat list" where
  "neighbours near n p = filter (\<lambda>q. q \<noteq> p \<and> near p q) [0..<n]"

text \<open>
  The greedy sphere exclusion in the words of the spec (section 4.3 and the glossary):
  the points are processed in the fixed order \<open>order\<close>; a point that is still unassigned
  becomes the centroid of a new cluster and absorbs all not yet assigned points near it;
  this is repeated until the order is used up. \<open>assigned\<close> holds the points assigned so
  far, centroids included.
\<close>

fun sphere_exclusion ::
  "(nat \<Rightarrow> nat \<Rightarrow> bool) \<Rightarrow> nat \<Rightarrow> nat list \<Rightarrow> nat list \<Rightarrow> nat list list" where
  "sphere_exclusion near n [] assigned = []"
| "sphere_exclusion near n (p # order) assigned =
     (if p \<in> set assigned then sphere_exclusion near n order assigned
      else (let cluster = p # filter (\<lambda>q. q \<notin> set assigned \<and> q \<noteq> p \<and> near p q) [0..<n]
            in cluster # sphere_exclusion near n order (assigned @ cluster)))"

text \<open>
  The fixed order: by decreasing number of neighbours, and by decreasing index among
  points with equally many.
\<close>

definition neighbour_order :: "(nat \<Rightarrow> nat \<Rightarrow> bool) \<Rightarrow> nat \<Rightarrow> nat list" where
  "neighbour_order near n =
     map snd (rev (sort (map (\<lambda>p. (length (neighbours near n p), p)) [0..<n])))"

section \<open>Data frames\<close>

text \<open>
  A cell of a pandas data frame holds a Python value: an integer, a string, a molecule
  object (\<open>'m\<close>), a float (\<open>'v\<close>, used for the descriptor values only), the missing value
  \<open>NaN\<close>, or, as the result of a lookup that matches several rows, a series of cells. Row
  labels are such values as well.

  A frame is its row labels \<open>index\<close> and its columns in order, each a name and one cell
  per row. The index is taken to be a plain one (one level, without a name). Column
  types (dtypes) are not modelled.
\<close>

datatype ('m, 'v) cell =
    CInt int
  | CStr string
  | CMol 'm
  | CNum 'v
  | CNaN
  | CSeries "('m, 'v) cell list"

record ('m, 'v) frame =
  index :: "('m, 'v) cell list"
  columns :: "(string \<times> ('m, 'v) cell list) list"

text \<open>
  The data frame objects live in a store: an address holds the state of the object, a
  variable of the program holds the address. A function that changes a frame in place
  returns the store with the new state at the same address; the value of the call is a
  \<open>pyval\<close>, \<open>PyRef a\<close> for the object at address \<open>a\<close>.
\<close>

type_synonym ('m, 'v) heap = "nat \<Rightarrow> ('m, 'v) frame"

subsection \<open>The pandas operations the module uses\<close>

definition names :: "('m, 'v) frame \<Rightarrow> string list" where
  "names fr = map fst (columns fr)"

text \<open>Every frame pandas builds has one cell per row in each of its columns.\<close>

definition well_formed :: "('m, 'v) frame \<Rightarrow> bool" where
  "well_formed fr = list_all (\<lambda>(c, cells). length cells = length (index fr)) (columns fr)"

text \<open>\<open>df[col] = cells\<close>: an existing column is overwritten in its place, a new one is appended.\<close>

definition set_column :: "('m, 'v) frame \<Rightarrow> string \<Rightarrow> ('m, 'v) cell list \<Rightarrow> ('m, 'v) frame" where
  "set_column fr col cells =
     (if col \<in> set (names fr)
      then fr\<lparr>columns := map (\<lambda>(c, old). if c = col then (c, cells) else (c, old)) (columns fr)\<rparr>
      else fr\<lparr>columns := columns fr @ [(col, cells)]\<rparr>)"

text \<open>\<open>df[[col]].values.tolist()\<close> followed by \<open>x[0]\<close> for each row: the cells of the column.\<close>

definition get_column :: "('m, 'v) frame \<Rightarrow> string \<Rightarrow> exn + ('m, 'v) cell list" where
  "get_column fr col = (case map_of (columns fr) col of None \<Rightarrow> Inl KeyError | Some cells \<Rightarrow> Inr cells)"

text \<open>
  \<open>df.reset_index()\<close>: a new frame with the labels \<open>0, 1, \<dots>\<close> whose first column holds the
  old labels. That column is named \<open>index\<close>, or \<open>level_0\<close> when there is a column \<open>index\<close>
  already; inserting a name that exists raises \<open>ValueError\<close>.
\<close>

definition reset_index :: "('m, 'v) frame \<Rightarrow> exn + ('m, 'v) frame" where
  "reset_index fr =
     (let name = (if ''index'' \<notin> set (names fr) then ''index'' else ''level_0'')
      in if name \<in> set (names fr) then Inl ValueError
         else Inr \<lparr>index = map (\<lambda>k. CInt (int k)) [0..<length (index fr)],
                   columns = (name, index fr) # columns fr\<rparr>)"

text \<open>
  \<open>df.at[label, col]\<close>, read: \<open>KeyError\<close> without such a column or such a row, the cell when
  one row bears the label, the series of the cells when several do.
\<close>

definition at_get :: "('m, 'v) frame \<Rightarrow> ('m, 'v) cell \<Rightarrow> string \<Rightarrow> exn + ('m, 'v) cell" where
  "at_get fr label col =
     (case map_of (columns fr) col of
        None \<Rightarrow> Inl KeyError
      | Some cells \<Rightarrow>
          (case map snd (filter (\<lambda>(l, x). l = label) (zip (index fr) cells)) of
             [] \<Rightarrow> Inl KeyError
           | [x] \<Rightarrow> Inr x
           | xs \<Rightarrow> Inr (CSeries xs)))"

text \<open>
  \<open>df.at[label, col] = v\<close>: a column that does not exist is appended, filled with \<open>NaN\<close>; a
  label that does not exist is appended as a new row, \<open>NaN\<close> in every column; then the
  cell of every row that bears the label is set.
\<close>

definition at_set ::
  "('m, 'v) frame \<Rightarrow> ('m, 'v) cell \<Rightarrow> string \<Rightarrow> ('m, 'v) cell \<Rightarrow> ('m, 'v) frame" where
  "at_set fr label col v =
     (let fr1 = (if col \<in> set (names fr) then fr
                 else fr\<lparr>columns := columns fr @ [(col, replicate (length (index fr)) CNaN)]\<rparr>);
          fr2 = (if label \<in> set (index fr1) then fr1
                 else fr1\<lparr>index := index fr1 @ [label],
                          columns := map (\<lambda>(c, cells). (c, cells @ [CNaN])) (columns fr1)\<rparr>)
      in fr2\<lparr>columns :=
               map (\<lambda>(c, cells).
                      if c = col
                      then (c, map (\<lambda>(l, x). if l = label then v else x) (zip (index fr2) cells))
                      else (c, cells))
                   (columns fr2)\<rparr>)"

text \<open>A list comprehension over a call that can raise: the first exception ends it.\<close>

primrec map_exn :: "('a \<Rightarrow> exn + 'b) \<Rightarrow> 'a list \<Rightarrow> exn + 'b list" where
  "map_exn f [] = Inr []"
| "map_exn f (x # xs) =
     (case f x of
        Inl e \<Rightarrow> Inl e
      | Inr y \<Rightarrow> (case map_exn f xs of Inl e \<Rightarrow> Inl e | Inr ys \<Rightarrow> Inr (y # ys)))"

subsection \<open>\<open>add_mol_column\<close>\<close>

text \<open>
  \<open>PandasTools.AddMoleculeColumnToFrame\<close> is the parameter \<open>AddMoleculeColumnToFrame\<close>: from
  the state of the frame and its arguments it gives the state it leaves the frame in and
  the exception it raised, if any. Line 56 returns the frame object that was passed in.
\<close>

definition add_mol_column ::
  "(('m, 'v) frame \<Rightarrow> string \<Rightarrow> string \<Rightarrow> bool \<Rightarrow> ('m, 'v) frame \<times> exn option)
     \<Rightarrow> ('m, 'v) heap \<Rightarrow> nat \<Rightarrow> string \<Rightarrow> string \<Rightarrow> ('m, 'v) heap \<times> (exn + pyval)" where
  "add_mol_column AddMoleculeColumnToFrame h df smiles_col molecule_col =
     (case AddMoleculeColumnToFrame (h df) smiles_col molecule_col True of
        (fr, Some e) \<Rightarrow> (h(df := fr), Inl e)
      | (fr, None) \<Rightarrow> (h(df := fr), Inr (PyRef df)))"

subsection \<open>\<open>calculate_descriptors\<close>\<close>

text \<open>
  \<open>Descriptors._descList\<close> is the parameter \<open>descList\<close>, a list of pairs of a descriptor's
  name and its function; \<open>CalcDescriptors\<close> is the method of the calculator that line 74
  builds from the names, applied to the names and a cell.

  Lines 77 and 78, the inner loop: the values are zipped with the names and written to
  row \<open>i\<close>.
\<close>

primrec set_descriptors ::
  "('m, 'v) cell \<Rightarrow> (string \<times> 'v) list \<Rightarrow> ('m, 'v) frame \<Rightarrow> ('m, 'v) frame" where
  "set_descriptors i [] fr = fr"
| "set_descriptors i (dd # rest) fr =
     (case dd of (desc, d) \<Rightarrow> set_descriptors i rest (at_set fr i desc (CNum d)))"

text \<open>
  Lines 75 to 78, the loop over the labels the index had when the loop began. It gives
  the state the frame is left in and the exception that ended the loop, if any.
\<close>

primrec descriptor_rows ::
  "(string list \<Rightarrow> ('m, 'v) cell \<Rightarrow> exn + 'v list) \<Rightarrow> string list \<Rightarrow> string
     \<Rightarrow> ('m, 'v) cell list \<Rightarrow> ('m, 'v) frame \<Rightarrow> ('m, 'v) frame \<times> exn option" where
  "descriptor_rows CalcDescriptors descriptors molecule_column [] fr = (fr, None)"
| "descriptor_rows CalcDescriptors descriptors molecule_column (i # is) fr =
     (case at_get fr i molecule_column of
        Inl e \<Rightarrow> (fr, Some e)
      | Inr mol \<Rightarrow>
          (case CalcDescriptors descriptors mol of
             Inl e \<Rightarrow> (fr, Some e)
           | Inr cd \<Rightarrow>
               descriptor_rows CalcDescriptors descriptors molecule_column is
                 (set_descriptors i (zip descriptors cd) fr)))"

text \<open>The function has no \<open>return\<close> statement: when the loop ends, its value is \<open>None\<close>.\<close>

definition calculate_descriptors ::
  "(string \<times> 'f) list \<Rightarrow> (string list \<Rightarrow> ('m, 'v) cell \<Rightarrow> exn + 'v list)
     \<Rightarrow> ('m, 'v) heap \<Rightarrow> nat \<Rightarrow> string \<Rightarrow> ('m, 'v) heap \<times> (exn + pyval)" where
  "calculate_descriptors descList CalcDescriptors h df molecule_column =
     (let descriptors = map fst descList
      in case descriptor_rows CalcDescriptors descriptors molecule_column (index (h df)) (h df) of
           (fr, Some e) \<Rightarrow> (h(df := fr), Inl e)
         | (fr, None) \<Rightarrow> (h(df := fr), Inr PyNone))"

subsection \<open>\<open>cluster_dataframe\<close>\<close>

text \<open>
  Lines 111 to 113, the inner loop over the members \<open>j\<close> of cluster \<open>i\<close>: the label of row
  \<open>j\<close> is read from \<open>df2\<close>, and the cluster number is written to the row of \<open>df\<close> that
  bears the label.
\<close>

primrec label_cluster ::
  "('m, 'v) frame \<Rightarrow> string \<Rightarrow> nat \<Rightarrow> nat list \<Rightarrow> ('m, 'v) frame \<Rightarrow> ('m, 'v) frame \<times> exn option" where
  "label_cluster df2 cluster_column i [] fr = (fr, None)"
| "label_cluster df2 cluster_column i (j # c) fr =
     (case at_get df2 (CInt (int j)) ''df_index'' of
        Inl e \<Rightarrow> (fr, Some e)
      | Inr df_index \<Rightarrow>
          label_cluster df2 cluster_column i c (at_set fr df_index cluster_column (CInt (int i))))"

text \<open>Lines 109 to 113, the loop over the cluster numbers.\<close>

primrec label_clusters ::
  "('m, 'v) frame \<Rightarrow> string \<Rightarrow> nat list list \<Rightarrow> nat list \<Rightarrow> ('m, 'v) frame
     \<Rightarrow> ('m, 'v) frame \<times> exn option" where
  "label_clusters df2 cluster_column clusters [] fr = (fr, None)"
| "label_clusters df2 cluster_column clusters (i # is) fr =
     (case label_cluster df2 cluster_column i (clusters ! i) fr of
        (fr1, Some e) \<Rightarrow> (fr1, Some e)
      | (fr1, None) \<Rightarrow> label_clusters df2 cluster_column clusters is fr1)"

text \<open>
  Lines 106 and 107: the cells of the molecule column of \<open>df2\<close> and their fingerprints.
  \<open>AllChem.GetMorganFingerprintAsBitVect\<close> is a parameter.
\<close>

definition fingerprints_of ::
  "(('m, 'v) cell \<Rightarrow> nat \<Rightarrow> nat \<Rightarrow> exn + 'fp) \<Rightarrow> ('m, 'v) frame \<Rightarrow> string \<Rightarrow> exn + 'fp list" where
  "fingerprints_of GetMorganFingerprintAsBitVect df2 molecule_column =
     (case get_column df2 molecule_column of
        Inl e \<Rightarrow> Inl e
      | Inr mols \<Rightarrow> map_exn (\<lambda>x. GetMorganFingerprintAsBitVect x 2 1024) mols)"

text \<open>
  The whole function, lines 103 to 113. \<open>df\<close> is changed in place, first by line 103 and
  then by the loop; \<open>df2\<close> is a frame of its own. The function has no \<open>return\<close> statement.
\<close>

definition cluster_dataframe ::
  "(('m, 'v) cell \<Rightarrow> nat \<Rightarrow> nat \<Rightarrow> exn + 'fp) \<Rightarrow> ('fp \<Rightarrow> 'fp \<Rightarrow> 'd::{ord,one,minus})
     \<Rightarrow> ('m, 'v) heap \<Rightarrow> nat \<Rightarrow> string \<Rightarrow> string \<Rightarrow> 'd \<Rightarrow> ('m, 'v) heap \<times> (exn + pyval)" where
  "cluster_dataframe GetMorganFingerprintAsBitVect sim h df molecule_column cluster_column cutoff =
     (let fr1 = set_column (h df) cluster_column (replicate (length (index (h df))) (CInt (- 1)));
          h1 = h(df := fr1)
      in case reset_index fr1 of
           Inl e \<Rightarrow> (h1, Inl e)
         | Inr df2a \<Rightarrow>
             (let df2 = set_column df2a ''df_index'' (index fr1)
              in case fingerprints_of GetMorganFingerprintAsBitVect df2 molecule_column of
                   Inl e \<Rightarrow> (h1, Inl e)
                 | Inr fingerprints \<Rightarrow>
                     (case cluster_fingerprints sim fingerprints cutoff of
                        Inl e \<Rightarrow> (h1, Inl e)
                      | Inr clusters \<Rightarrow>
                          (case label_clusters df2 cluster_column clusters
                                  [0..<length clusters] fr1 of
                             (fr2, Some e) \<Rightarrow> (h1(df := fr2), Inl e)
                           | (fr2, None) \<Rightarrow> (h1(df := fr2), Inr PyNone)))))"

section \<open>Sample inputs\<close>

text \<open>
  A small toolkit to run the rendering functions on. A molecule is two flags: whether its
  property cache is fresh and whether it can be kekulized. Reading a valence from a stale
  cache raises \<open>RuntimeError\<close>, preparing a molecule that cannot be kekulized with
  \<open>kekulize=True\<close> raises \<open>ValueError\<close>. The file system is the list of the paths written
  so far.
\<close>

datatype sample_mol = SampleMol (cache_fresh: bool) (kekulizable: bool)

definition sample_toolkit :: "(sample_mol, string, string, string list) toolkit" where
  "sample_toolkit = \<lparr>
     GetAtomWithIdx = (\<lambda>m i. Inr i),
     GetExplicitValence = (\<lambda>m a. if cache_fresh m then Inr 4 else Inl RuntimeError),
     UpdatePropertyCache = (\<lambda>m strict. Inr (SampleMol True (kekulizable m))),
     PrepareMolForDrawing = (\<lambda>m k. if k \<and> \<not> kekulizable m then Inl ValueError else Inr m),
     MolDraw2DSVG = (\<lambda>w h. Inr []),
     DrawMolecule = (\<lambda>d m. Inr ''<svg:svg xmlns:svg=1>''),
     FinishDrawing = (\<lambda>d. Inr d),
     GetDrawingText = (\<lambda>d. Inr d),
     MolToImage = (\<lambda>m sz. Inr ''img''),
     save_bytes = (\<lambda>img. Inr img),
     b64encode = (\<lambda>s. s),
     makedirs = (\<lambda>d f. (f @ [d], None)),
     save_file = (\<lambda>img name f. (f @ [name], None)),
     write_text = (\<lambda>name txt f. (f @ [name], None)) \<rparr>"

definition sample_world :: "(sample_mol, string list) world" where
  "sample_world = \<lparr>molecule = SampleMol False False, log = [], fs = []\<rparr>"

text \<open>
  Modelled from the spec: the Tanimoto similarity of RDKit, which the glossary gives as
  intersection over union of two bit vectors; two vectors without any bit set have
  similarity 1. It serves as the similarity of the sample runs, with exact fractions in
  place of floats, and states what identical fingerprints are for claim C5.
\<close>

definition TanimotoSimilarity :: "bool list \<Rightarrow> bool list \<Rightarrow> rat" where
  "TanimotoSimilarity a b =
     (let x = length (filter (\<lambda>(p, q). p \<and> q) (zip a b));
          y = length (filter id a);
          z = length (filter id b)
      in if y + z - x = 0 then 1 else of_nat x / of_nat (y + z - x))"

text \<open>
  Six fingerprints of eight bits. At cutoff \<open>1/2\<close> point 2 is near 0 and 1, point 5 near
  0, and point 4 near 3; no other two are near each other.
\<close>

definition sample_fps :: "bool list list" where
  "sample_fps =
     [[False, True,  True,  True,  False, False, False, False],
      [False, False, False, True,  True,  True,  False, False],
      [False, False, True,  True,  True,  False, False, False],
      [False, False, False, False, False, False, True,  True],
      [False, False, False, False, False, False, True,  False],
      [True,  True,  True,  False, False, False, False, False]]"

text \<open>Three fingerprints, the first two identical.\<close>

definition sample_twins :: "bool list list" where
  "sample_twins =
     [[False, True,  True,  True,  False, False, False, False],
      [False, True,  True,  True,  False, False, False, False],
      [False, False, False, True,  True,  True,  False, False]]"

text \<open>
  A frame of three compounds with the row labels 7, 3, 5, as a filtered and shuffled
  table has them. A molecule is its fingerprint here, of which the fingerprint call
  takes the first bits; of any other cell it raises. The store holds the frame at every
  address.
\<close>

definition sample_frame :: "(bool list, rat) frame" where
  "sample_frame =
     \<lparr>index = [CInt 7, CInt 3, CInt 5],
      columns =
        [(''smiles'', [CStr ''CCO'', CStr ''CCO'', CStr ''c1ccccc1'']),
         (''mol'', [CMol (sample_twins ! 0), CMol (sample_twins ! 1), CMol (sample_twins ! 2)])]\<rparr>"

definition sample_heap :: "(bool list, rat) heap" where
  "sample_heap = (\<lambda>a. sample_frame)"


text \<open>
  Two descriptors: the number of bits set and the number of bits, as fractions.
\<close>

definition sample_descList :: "(string \<times> (bool list \<Rightarrow> rat)) list" where
  "sample_descList =
     [(''NumOn'', \<lambda>m. of_nat (length (filter id m))), (''NumBits'', \<lambda>m. of_nat (length m))]"

definition sample_calc :: "string list \<Rightarrow> (bool list, rat) cell \<Rightarrow> exn + rat list" where
  "sample_calc descriptors x =
     (case x of
        CMol m \<Rightarrow> Inr (map (\<lambda>nm. case map_of sample_descList nm of
                                    None \<Rightarrow> 777 | Some f \<Rightarrow> f m) descriptors)
      | _ \<Rightarrow> Inl (OtherError ''ArgumentError''))"

definition sample_add_mol ::
  "(bool list, rat) frame \<Rightarrow> string \<Rightarrow> string \<Rightarrow> bool \<Rightarrow> (bool list, rat) frame \<times> exn option" where
  "sample_add_mol fr smiles_col molecule_col includeFingerprints =
     (case get_column fr smiles_col of
        Inl e \<Rightarrow> (fr, Some e)
      | Inr cells \<Rightarrow> (set_column fr molecule_col (map (\<lambda>x. CMol []) cells), None))"

text \<open>
  A frame without rows, and the sample frame with a column that bears the name of a
  descriptor already.
\<close>

definition sample_empty_heap :: "(bool list, rat) heap" where
  "sample_empty_heap = (\<lambda>a. \<lparr>index = [], columns = [(''mol'', [])]\<rparr>)"

definition sample_clash_heap :: "(bool list, rat) heap" where
  "sample_clash_heap =
     (\<lambda>a. sample_frame\<lparr>columns :=
              columns sample_frame @ [(''NumOn'', [CStr ''a'', CStr ''b'', CStr ''c''])]\<rparr>)"


section \<open>Properties of the rendering functions\<close>

text \<open>
  Claim C7. Whatever the molecule, the toolkit and the other arguments: when the
  lowercase form of \<open>type\<close> is neither \<open>png\<close> nor \<open>svg\<close>, \<open>mol_to_html\<close> hands the logger one
  warning, changes nothing else, raises nothing and returns \<open>None\<close>. When the lowercase
  form is \<open>png\<close> or \<open>svg\<close> (so \<open>PNG\<close> or \<open>Svg\<close> are recognised as well) the call never returns
  \<open>None\<close> and logs no warning: the logger gets the \<open>embed\<close> notice or nothing.
\<close>

theorem mol_to_html_unrecognized_type:
  "(lower type \<notin> set [''png'', ''svg''] \<longrightarrow>
      mol_to_html tk name type directory embed' width height w =
        (w\<lparr>log := log w @ [(WARNING, warning_text)]\<rparr>, Inr PyNone)) \<and>
   (lower type \<in> set [''png'', ''svg''] \<longrightarrow>
      snd (mol_to_html tk name type directory embed' width height w) \<noteq> Inr PyNone \<and>
      log (fst (mol_to_html tk name type directory embed' width height w)) =
        log w @ (if embed' then [(INFO, info_text)] else []))"
  by (auto simp: mol_to_html_def Let_def save_png_def save_svg_def
      split: prod.splits sum.splits option.splits)

theorem mol_to_html_unrecognized_type_witness:
  "lower ''bmp'' \<notin> set [''png'', ''svg''] \<and>
   mol_to_html sample_toolkit ''a'' ''bmp'' ''out'' False 400 200 sample_world =
     (sample_world\<lparr>log := [(WARNING, warning_text)]\<rparr>, Inr PyNone) \<and>
   lower ''PNG'' \<in> set [''png'', ''svg''] \<and>
   snd (mol_to_html sample_toolkit ''a'' ''PNG'' ''out'' False 400 200 sample_world) \<noteq> Inr PyNone"
proof -
  have a: "lower ''bmp'' \<notin> set [''png'', ''svg'']" by code_simp
  have b: "lower ''PNG'' \<in> set [''png'', ''svg'']" by code_simp
  have l: "log sample_world = []" by (simp add: sample_world_def)
  show ?thesis
    using a b l
      mol_to_html_unrecognized_type
        [of "''bmp''" sample_toolkit "''a''" "''out''" False 400 200 sample_world]
      mol_to_html_unrecognized_type
        [of "''PNG''" sample_toolkit "''a''" "''out''" False 400 200 sample_world]
    by simp
qed



text \<open>
  Claim C10. With \<open>embed=True\<close>, \<open>mol_to_html\<close> leaves the file system as it found it
  (no directory is made and no file written, whether the call returns or raises), and
  its outcome, the tag included, is the same for any two \<open>name\<close> and \<open>directory\<close>
  arguments: it depends on the molecule, the type, the width and the height only. This
  holds for every \<open>type\<close>, the recognised ones among them.
\<close>

theorem mol_to_html_embed_no_file_effect:
  "mol_to_html tk name type directory True width height w =
     mol_to_html tk name' type directory' True width height w \<and>
   fs (fst (mol_to_html tk name type directory True width height w)) = fs w"
  by (auto simp: mol_to_html_def Let_def split: prod.splits sum.splits)

theorem mol_to_html_embed_no_file_effect_witness:
  "mol_to_html sample_toolkit ''a.svg'' ''svg'' ''out'' True 400 200 sample_world =
     mol_to_html sample_toolkit ''b.svg'' ''svg'' ''elsewhere'' True 400 200 sample_world \<and>
   fs (fst (mol_to_html sample_toolkit ''a.svg'' ''svg'' ''out'' True 400 200 sample_world)) = []"
proof -
  have l: "fs sample_world = []" by (simp add: sample_world_def)
  show ?thesis
    using l
      mol_to_html_embed_no_file_effect
        [of sample_toolkit "''a.svg''" "''svg''" "''out''" 400 200 sample_world
            "''b.svg''" "''elsewhere''"]
    by auto
qed

section \<open>The clustering computes the sphere exclusion\<close>

lemma nbr_row_append:
  "nbr_row data thr i (xs @ ys) st =
     (case nbr_row data thr i xs st of Inl e \<Rightarrow> Inl e | Inr st1 \<Rightarrow> nbr_row data thr i ys st1)"
  by (induction xs arbitrary: st) (auto simp: Let_def split: prod.splits)

lemma nbr_rows_append:
  "nbr_rows data thr (xs @ ys) st =
     (case nbr_rows data thr xs st of Inl e \<Rightarrow> Inl e | Inr st1 \<Rightarrow> nbr_rows data thr ys st1)"
  by (induction xs arbitrary: st) (auto split: sum.splits)

lemma nbr_row_prefix:
  assumes "length nl = n" "i < n" "data = pre @ r @ post" "length r = i" "j \<le> i"
  shows "\<exists>nl1. nbr_row data thr i [0..<j] (nl, length pre) = Inr (nl1, length pre + j) \<and>
           length nl1 = n \<and>
           (\<forall>a<n. nl1 ! a = nl ! a @
              (if a = i then filter (\<lambda>b. r ! b \<le> thr) [0..<j]
               else if a < j \<and> r ! a \<le> thr then [i] else []))"
  using assms(5)
proof (induction j)
  case 0
  then show ?case using assms by simp
next
  case (Suc j)
  then obtain nl1 where
    run: "nbr_row data thr i [0..<j] (nl, length pre) = Inr (nl1, length pre + j)" and
    len: "length nl1 = n" and
    shape: "\<forall>a<n. nl1 ! a = nl ! a @
              (if a = i then filter (\<lambda>b. r ! b \<le> thr) [0..<j]
               else if a < j \<and> r ! a \<le> thr then [i] else [])"
    by auto
  from Suc.prems have ji: "j < i" by simp
  have idx: "length pre + j < length data" using assms ji by simp
  have dj: "data ! (length pre + j) = r ! j" using assms ji by (simp add: nth_append)
  define nl2 where "nl2 = (if r ! j \<le> thr
      then (let nl' = nl1[i := nl1 ! i @ [j]] in nl'[j := nl' ! j @ [i]]) else nl1)"
  have step: "nbr_row data thr i [0..<Suc j] (nl, length pre) = Inr (nl2, length pre + Suc j)"
    using run idx dj by (simp add: nbr_row_append nl2_def Let_def)
  have len2: "length nl2 = n" using len by (simp add: nl2_def Let_def)
  have "nl2 ! a = nl ! a @
              (if a = i then filter (\<lambda>b. r ! b \<le> thr) [0..<Suc j]
               else if a < Suc j \<and> r ! a \<le> thr then [i] else [])" if "a < n" for a
  proof -
    have s: "nl1 ! a = nl ! a @
              (if a = i then filter (\<lambda>b. r ! b \<le> thr) [0..<j]
               else if a < j \<and> r ! a \<le> thr then [i] else [])"
      using shape that by blast
    show ?thesis
    proof (cases "r ! j \<le> thr")
      case False
      then have "nl2 = nl1" by (simp add: nl2_def)
      then show ?thesis using s False by (auto simp: less_Suc_eq)
    next
      case True
      then have e: "nl2 = (nl1[i := nl1 ! i @ [j]])[j := nl1 ! j @ [i]]"
        using ji by (simp add: nl2_def Let_def)
      consider "a = i" | "a = j" | "a \<noteq> i" "a \<noteq> j" by blast
      then show ?thesis
      proof cases
        case 1
        then show ?thesis using e s True ji len assms(2) by simp
      next
        case 2
        then show ?thesis using e s True ji len that by simp
      next
        case 3
        then show ?thesis using e s True ji len that by (auto simp: less_Suc_eq)
      qed
    qed
  qed
  then show ?case using step len2 by blast
qed

lemma upt_split3: "k < n \<Longrightarrow> [0..<n] = [0..<k] @ k # [Suc k..<n]"
  by (metis le_add1 le_add_same_cancel1 less_imp_add_positive upt_add_eq_append upt_conv_Cons)

lemma nbr_rows_prefix:
  assumes rows: "\<forall>i<n. length (row i) = i"
    and data: "data = concat (map row [0..<n])"
    and k: "k \<le> n"
  shows "\<exists>nl. nbr_rows data thr [0..<k] (replicate n [], 0)
             = Inr (nl, length (concat (map row [0..<k]))) \<and>
           length nl = n \<and>
           (\<forall>a<n. nl ! a =
              (if a < k then filter (\<lambda>b. b \<noteq> a \<and> row (max a b) ! (min a b) \<le> thr) [0..<k]
               else []))"
  using k
proof (induction k)
  case 0
  then show ?case by simp
next
  case (Suc k)
  then obtain nl where
    run: "nbr_rows data thr [0..<k] (replicate n [], 0)
            = Inr (nl, length (concat (map row [0..<k])))" and
    len: "length nl = n" and
    shape: "\<forall>a<n. nl ! a =
              (if a < k then filter (\<lambda>b. b \<noteq> a \<and> row (max a b) ! (min a b) \<le> thr) [0..<k]
               else [])"
    by auto
  from Suc.prems have kn: "k < n" by simp
  have split: "data = concat (map row [0..<k]) @ row k @ concat (map row [Suc k..<n])"
    using data upt_split3 [OF kn] by simp
  have lk: "length (row k) = k" using rows kn by simp
  obtain nl1 where
    row: "nbr_row data thr k [0..<k] (nl, length (concat (map row [0..<k])))
            = Inr (nl1, length (concat (map row [0..<k])) + k)" and
    len1: "length nl1 = n" and
    shape1: "\<forall>a<n. nl1 ! a = nl ! a @
              (if a = k then filter (\<lambda>b. row k ! b \<le> thr) [0..<k]
               else if a < k \<and> row k ! a \<le> thr then [k] else [])"
    using nbr_row_prefix [OF len kn split lk order_refl, of thr] by blast
  have run1: "nbr_rows data thr [0..<Suc k] (replicate n [], 0)
                = Inr (nl1, length (concat (map row [0..<Suc k])))"
    using run row lk by (simp add: nbr_rows_append)
  have "nl1 ! a =
          (if a < Suc k
           then filter (\<lambda>b. b \<noteq> a \<and> row (max a b) ! (min a b) \<le> thr) [0..<Suc k]
           else [])" if an: "a < n" for a
  proof -
    have s: "nl ! a =
              (if a < k then filter (\<lambda>b. b \<noteq> a \<and> row (max a b) ! (min a b) \<le> thr) [0..<k]
               else [])"
      using shape an by blast
    have s1: "nl1 ! a = nl ! a @
              (if a = k then filter (\<lambda>b. row k ! b \<le> thr) [0..<k]
               else if a < k \<and> row k ! a \<le> thr then [k] else [])"
      using shape1 an by blast
    consider "a < k" | "a = k" | "k < a" by linarith
    then show ?thesis
    proof cases
      case 1
      then have "max a k = k" "min a k = a" by simp_all
      then show ?thesis using 1 s s1 by simp
    next
      case 2
      have "filter (\<lambda>b. row k ! b \<le> thr) [0..<k]
              = filter (\<lambda>b. b \<noteq> k \<and> row (max k b) ! (min k b) \<le> thr) [0..<k]"
        by (rule filter_cong) (auto simp: max_def min_def)
      then show ?thesis using 2 s s1 by simp
    next
      case 3
      then show ?thesis using s s1 by simp
    qed
  qed
  then show ?case using run1 len1 by blast
qed

lemma nbr_rows_all:
  assumes rows: "\<forall>i<n. length (row i) = i"
    and data: "data = concat (map row [0..<n])"
  shows "\<exists>dmIdx. nbr_rows data thr [0..<n] (replicate n [], 0)
           = Inr (map (neighbours (\<lambda>a b. row (max a b) ! (min a b) \<le> thr) n) [0..<n], dmIdx)"
proof -
  obtain nl where
    run: "nbr_rows data thr [0..<n] (replicate n [], 0)
            = Inr (nl, length (concat (map row [0..<n])))" and
    len: "length nl = n" and
    shape: "\<forall>a<n. nl ! a =
              (if a < n then filter (\<lambda>b. b \<noteq> a \<and> row (max a b) ! (min a b) \<le> thr) [0..<n]
               else [])"
    using nbr_rows_prefix [OF rows data order_refl, of thr] by blast
  have "nl = map (neighbours (\<lambda>a b. row (max a b) ! (min a b) \<le> thr) n) [0..<n]"
    using len shape by (intro nth_equalityI) (simp_all add: neighbours_def)
  then show ?thesis using run by blast
qed

lemma absorb_filter:
  assumes "distinct nbrs" "\<forall>q\<in>set nbrs. q < length seen"
  shows "\<exists>seen1. absorb nbrs (tRes, seen) = (tRes @ filter (\<lambda>q. \<not> seen ! q) nbrs, seen1) \<and>
           length seen1 = length seen \<and>
           (\<forall>q<length seen. seen1 ! q = (seen ! q \<or> q \<in> set nbrs))"
  using assms
proof (induction nbrs arbitrary: tRes seen)
  case Nil
  then show ?case by simp
next
  case (Cons nbr nbrs)
  show ?case
  proof (cases "seen ! nbr")
    case True
    obtain seen1 where
      "absorb nbrs (tRes, seen) = (tRes @ filter (\<lambda>q. \<not> seen ! q) nbrs, seen1)"
      "length seen1 = length seen"
      "\<forall>q<length seen. seen1 ! q = (seen ! q \<or> q \<in> set nbrs)"
      using Cons.IH [of seen tRes] Cons.prems by auto
    then show ?thesis using True by auto
  next
    case False
    let ?s = "seen[nbr := True]"
    have f: "filter (\<lambda>q. \<not> ?s ! q) nbrs = filter (\<lambda>q. \<not> seen ! q) nbrs"
      using Cons.prems by (intro filter_cong) (auto simp: nth_list_update)
    obtain seen1 where
      "absorb nbrs (tRes @ [nbr], ?s) = ((tRes @ [nbr]) @ filter (\<lambda>q. \<not> ?s ! q) nbrs, seen1)"
      "length seen1 = length ?s"
      "\<forall>q<length ?s. seen1 ! q = (?s ! q \<or> q \<in> set nbrs)"
      using Cons.IH [of ?s "tRes @ [nbr]"] Cons.prems by auto
    then show ?thesis using False f Cons.prems by (auto simp: nth_list_update)
  qed
qed

lemma neighbours_props:
  "distinct (neighbours near n p)"
  "set (neighbours near n p) = {q. q < n \<and> q \<noteq> p \<and> near p q}"
  by (auto simp: neighbours_def)

lemma cluster_loop_sphere_exclusion:
  assumes sym: "\<forall>a b. near a b = near b a"
    and nl: "nl = map (neighbours near n) [0..<n]"
  shows "length seen = n \<Longrightarrow> set (map snd ts) \<subseteq> {0..<n} \<Longrightarrow> distinct (map snd ts) \<Longrightarrow>
         (\<forall>q<n. seen ! q \<longrightarrow> q \<in> set assigned) \<Longrightarrow>
         (\<forall>q<n. q \<in> set assigned \<and> \<not> seen ! q \<longrightarrow>
              q \<notin> set (map snd ts) \<and> (\<forall>b\<in>set (neighbours near n q). seen ! b)) \<Longrightarrow>
         cluster_loop nl ts seen = sphere_exclusion near n (map snd ts) assigned"
proof (induction ts arbitrary: seen assigned)
  case Nil
  then show ?case by simp
next
  case (Cons t ts)
  obtain c idx where t: "t = (c, idx)" by (cases t)
  have len: "length seen = n" by (rule Cons.prems(1))
  have idx: "idx < n" using Cons.prems(2) t by simp
  have idx_ts: "idx \<notin> set (map snd ts)" using Cons.prems(3) t by simp
  have sub: "set (map snd ts) \<subseteq> {0..<n}" using Cons.prems(2) by simp
  have dist: "distinct (map snd ts)" using Cons.prems(3) by simp
  have inv1: "q \<in> set assigned" if "q < n" "seen ! q" for q
    using Cons.prems(4) that by blast
  have inv2a: "q \<notin> set (map snd (t # ts))" if "q < n" "q \<in> set assigned" "\<not> seen ! q" for q
    using Cons.prems(5) that by blast
  have inv2b: "seen ! b" if "q < n" "q \<in> set assigned" "\<not> seen ! q" "b \<in> set (neighbours near n q)" for q b
    using Cons.prems(5) that by blast
  have seen_iff: "seen ! idx \<longleftrightarrow> idx \<in> set assigned"
  proof
    assume "seen ! idx" then show "idx \<in> set assigned" using inv1 idx by blast
  next
    assume a: "idx \<in> set assigned"
    show "seen ! idx"
    proof (rule ccontr)
      assume "\<not> seen ! idx"
      then have "idx \<notin> set (map snd (t # ts))" using inv2a idx a by blast
      then show False using t by simp
    qed
  qed
  show ?case
  proof (cases "seen ! idx")
    case True
    have "cluster_loop nl ts seen = sphere_exclusion near n (map snd ts) assigned"
    proof (rule Cons.IH [OF len sub dist])
      show "\<forall>q<n. seen ! q \<longrightarrow> q \<in> set assigned" using inv1 by blast
      show "\<forall>q<n. q \<in> set assigned \<and> \<not> seen ! q \<longrightarrow>
              q \<notin> set (map snd ts) \<and> (\<forall>b\<in>set (neighbours near n q). seen ! b)"
      proof (intro allI impI conjI ballI)
        fix q assume "q < n" "q \<in> set assigned \<and> \<not> seen ! q"
        then show "q \<notin> set (map snd ts)" using inv2a [of q] by simp
      next
        fix q b assume "q < n" "q \<in> set assigned \<and> \<not> seen ! q" "b \<in> set (neighbours near n q)"
        then show "seen ! b" using inv2b [of q b] by simp
      qed
    qed
    then show ?thesis using True seen_iff t by simp
  next
    case False
    let ?nb = "neighbours near n idx"
    have nli: "nl ! idx = ?nb" using nl idx by simp
    have nb_lt: "\<forall>q\<in>set ?nb. q < length seen" using len by (simp add: neighbours_props)
    obtain seen1 where
      ab: "absorb ?nb ([idx], seen) = ([idx] @ filter (\<lambda>q. \<not> seen ! q) ?nb, seen1)" and
      len1: "length seen1 = length seen" and
      s1: "\<forall>q<length seen. seen1 ! q = (seen ! q \<or> q \<in> set ?nb)"
      using absorb_filter [OF neighbours_props(1) nb_lt, of "[idx]"] by blast
    have s1': "seen1 ! q = (seen ! q \<or> q \<in> set ?nb)" if "q < n" for q
      using s1 len that by simp
    have unseen_free: "q \<notin> set assigned" if "q < n" "q \<noteq> idx" "near idx q" "\<not> seen ! q" for q
    proof
      assume a: "q \<in> set assigned"
      have "near q idx" using sym that(3) by simp
      then have "idx \<in> set (neighbours near n q)"
        using that(2) idx by (simp add: neighbours_props)
      then have "seen ! idx" using inv2b [of q idx] that a by blast
      then show False using False by blast
    qed
    have key: "((q \<noteq> idx \<and> near idx q) \<and> \<not> seen ! q)
                 = (q \<notin> set assigned \<and> q \<noteq> idx \<and> near idx q)" if "q \<in> set [0..<n]" for q
    proof -
      have qn: "q < n" using that by simp
      show ?thesis using unseen_free [of q] inv1 [of q] qn by blast
    qed
    have cl: "filter (\<lambda>q. \<not> seen ! q) ?nb
                = filter (\<lambda>q. q \<notin> set assigned \<and> q \<noteq> idx \<and> near idx q) [0..<n]"
      unfolding neighbours_def filter_filter
      by (rule filter_cong [OF refl]) (rule key)
    let ?cluster = "idx # filter (\<lambda>q. q \<notin> set assigned \<and> q \<noteq> idx \<and> near idx q) [0..<n]"
    have idx_not_nb: "idx \<notin> set ?nb" by (simp add: neighbours_props)
    have set_cluster: "set ?cluster = insert idx {q \<in> set ?nb. \<not> seen ! q}"
      unfolding cl [symmetric] by auto
    have "cluster_loop nl ts seen1 = sphere_exclusion near n (map snd ts) (assigned @ ?cluster)"
    proof (rule Cons.IH [OF _ sub dist])
      show "length seen1 = n" using len1 len by simp
      show "\<forall>q<n. seen1 ! q \<longrightarrow> q \<in> set (assigned @ ?cluster)"
      proof (intro allI impI)
        fix q assume qn: "q < n" and "seen1 ! q"
        then have "seen ! q \<or> q \<in> set ?nb" using s1' by blast
        then have "q \<in> set assigned \<or> q \<in> set ?cluster"
          using inv1 [OF qn] unfolding set_cluster by blast
        then show "q \<in> set (assigned @ ?cluster)" by auto
      qed
      show "\<forall>q<n. q \<in> set (assigned @ ?cluster) \<and> \<not> seen1 ! q \<longrightarrow>
              q \<notin> set (map snd ts) \<and> (\<forall>b\<in>set (neighbours near n q). seen1 ! b)"
      proof (intro allI impI)
        fix q assume qn: "q < n" and q: "q \<in> set (assigned @ ?cluster) \<and> \<not> seen1 ! q"
        then have ns: "\<not> seen ! q" "q \<notin> set ?nb" using s1' by blast+
        have mem: "q \<in> set assigned \<or> q \<in> set ?cluster" using q by auto
        show "q \<notin> set (map snd ts) \<and> (\<forall>b\<in>set (neighbours near n q). seen1 ! b)"
        proof (cases "q = idx")
          case True
          have "\<forall>b\<in>set ?nb. seen1 ! b"
          proof
            fix b assume b: "b \<in> set ?nb"
            then have "b < n" by (simp add: neighbours_props)
            then show "seen1 ! b" using s1' b by blast
          qed
          then show ?thesis using True idx_ts by simp
        next
          case neq: False
          have "q \<in> set assigned" using mem ns neq unfolding set_cluster by blast
          then have a: "q \<notin> set (map snd (t # ts))" and
            b: "\<And>b. b \<in> set (neighbours near n q) \<Longrightarrow> seen ! b"
            using inv2a [of q] inv2b [of q] qn ns by blast+
          have "seen1 ! b" if "b \<in> set (neighbours near n q)" for b
          proof -
            have "b < n" using that by (simp add: neighbours_props)
            then show ?thesis using s1' b [OF that] by blast
          qed
          then show ?thesis using a by simp
        qed
      qed
    qed
    then show ?thesis using False seen_iff t nli ab cl by (simp add: Let_def)
  qed
qed

lemma sphere_exclusion_partition:
  "set order \<subseteq> {0..<n} \<Longrightarrow>
     distinct (concat (sphere_exclusion near n order assigned)) \<and>
     set (concat (sphere_exclusion near n order assigned)) \<inter> set assigned = {} \<and>
     set (concat (sphere_exclusion near n order assigned)) \<subseteq> {0..<n} \<and>
     set order \<subseteq> set assigned \<union> set (concat (sphere_exclusion near n order assigned))"
proof (induction order arbitrary: assigned)
  case Nil
  then show ?case by simp
next
  case (Cons p order)
  have sub: "set order \<subseteq> {0..<n}" and pn: "p < n" using Cons.prems by simp_all
  show ?case
  proof (cases "p \<in> set assigned")
    case True
    then show ?thesis using Cons.IH [OF sub, of assigned] by auto
  next
    case False
    let ?rest = "filter (\<lambda>q. q \<notin> set assigned \<and> q \<noteq> p \<and> near p q) [0..<n]"
    let ?cluster = "p # ?rest"
    let ?tail = "sphere_exclusion near n order (assigned @ ?cluster)"
    have ih: "distinct (concat ?tail)"
      "set (concat ?tail) \<inter> set (assigned @ ?cluster) = {}"
      "set (concat ?tail) \<subseteq> {0..<n}"
      "set order \<subseteq> set (assigned @ ?cluster) \<union> set (concat ?tail)"
      using Cons.IH [OF sub, of "assigned @ ?cluster"] by blast+
    have eq: "sphere_exclusion near n (p # order) assigned = ?cluster # ?tail"
      using False by (simp add: Let_def)
    have dc: "distinct ?cluster" by simp
    have cn: "set ?cluster \<subseteq> {0..<n}" using pn by auto
    have ca: "set ?cluster \<inter> set assigned = {}" using False by auto
    have 1: "distinct (concat (?cluster # ?tail))"
      using ih(1,2) dc by (simp del: set_filter filter.simps) blast
    have 2: "set (concat (?cluster # ?tail)) \<inter> set assigned = {}"
      using ih(2) ca by (simp del: set_filter filter.simps) blast
    have 3: "set (concat (?cluster # ?tail)) \<subseteq> {0..<n}"
      using ih(3) cn by (simp del: set_filter filter.simps)
    have 4: "set (p # order) \<subseteq> set assigned \<union> set (concat (?cluster # ?tail))"
      using ih(4) by (simp del: set_filter filter.simps) blast
    show ?thesis unfolding eq using 1 2 3 4 by blast
  qed
qed

lemma sphere_exclusion_centroid:
  "c \<in> set (sphere_exclusion near n order assigned) \<Longrightarrow>
     c \<noteq> [] \<and> hd c \<in> set order \<and> hd c \<notin> set assigned \<and>
     (\<forall>q\<in>set (tl c). q < n \<and> q \<noteq> hd c \<and> near (hd c) q) \<and>
     length c \<le> 1 + length (neighbours near n (hd c))"
proof (induction order arbitrary: assigned)
  case Nil
  then show ?case by simp
next
  case (Cons p order)
  show ?case
  proof (cases "p \<in> set assigned")
    case True
    then have "c \<in> set (sphere_exclusion near n order assigned)" using Cons.prems by simp
    then show ?thesis using Cons.IH by auto
  next
    case False
    let ?rest = "filter (\<lambda>q. q \<notin> set assigned \<and> q \<noteq> p \<and> near p q) [0..<n]"
    let ?cluster = "p # ?rest"
    have "c = ?cluster \<or> c \<in> set (sphere_exclusion near n order (assigned @ ?cluster))"
      using Cons.prems False by (simp add: Let_def)
    then show ?thesis
    proof
      assume c: "c = ?cluster"
      have "?rest = filter (\<lambda>q. q \<notin> set assigned) (neighbours near n p)"
        unfolding neighbours_def filter_filter by (rule filter_cong) auto
      then have "length ?rest \<le> length (neighbours near n p)" by simp
      then show ?thesis using c False by auto
    next
      assume "c \<in> set (sphere_exclusion near n order (assigned @ ?cluster))"
      then show ?thesis using Cons.IH [of "assigned @ ?cluster"] by auto
    qed
  qed
qed

lemma sphere_exclusion_sorted:
  "sorted_wrt R order \<Longrightarrow> sorted_wrt R (map hd (sphere_exclusion near n order assigned))"
proof (induction order arbitrary: assigned)
  case Nil
  then show ?case by simp
next
  case (Cons p order)
  have s: "sorted_wrt R order" and r: "\<forall>x\<in>set order. R p x" using Cons.prems by simp_all
  have hds: "\<forall>c\<in>set (sphere_exclusion near n order assigned'). R p (hd c)" for assigned'
    using sphere_exclusion_centroid [of _ near n order assigned'] r by blast
  show ?case
  proof (cases "p \<in> set assigned")
    case True
    then show ?thesis using Cons.IH [OF s] by simp
  next
    case False
    then show ?thesis using Cons.IH [OF s] hds by (simp add: Let_def)
  qed
qed

lemma sphere_exclusion_singletons:
  assumes "\<forall>p<n. \<forall>q<n. p \<noteq> q \<longrightarrow> \<not> near p q" "set order \<subseteq> {0..<n}"
    and "c \<in> set (sphere_exclusion near n order assigned)"
  shows "length c = 1"
proof -
  have c: "c \<noteq> []" "hd c \<in> set order"
    "\<forall>q\<in>set (tl c). q < n \<and> q \<noteq> hd c \<and> near (hd c) q"
    using sphere_exclusion_centroid [OF assms(3)] by blast+
  have hn: "hd c < n" using c(2) assms(2) by auto
  have "tl c = []"
  proof (rule ccontr)
    assume "tl c \<noteq> []"
    then obtain q where q: "q \<in> set (tl c)" by (cases "tl c") auto
    then have "q < n" "q \<noteq> hd c" "near (hd c) q" using c(3) by blast+
    then show False using assms(1) hn by blast
  qed
  then show ?thesis using c(1) by (cases c) auto
qed

lemma neighbour_order_perm:
  "set (neighbour_order near n) = {0..<n}" "distinct (neighbour_order near n)"
proof -
  let ?xs = "map (\<lambda>p. (length (neighbours near n p), p)) [0..<n]"
  have m: "map snd ?xs = [0..<n]" by (simp add: comp_def)
  have d: "distinct (map snd ?xs)" unfolding m by simp
  then have dx: "distinct ?xs" and inj: "inj_on snd (set ?xs)"
    by (simp_all only: distinct_map)
  show "set (neighbour_order near n) = {0..<n}"
    by (simp add: neighbour_order_def image_image)
  have "distinct (rev (sort ?xs))" using dx by simp
  moreover have "inj_on snd (set (rev (sort ?xs)))" using inj by simp
  ultimately show "distinct (neighbour_order near n)"
    unfolding neighbour_order_def by (simp only: distinct_map)
qed

lemma neighbour_order_sorted:
  "sorted_wrt (\<lambda>p q. length (neighbours near n q) \<le> length (neighbours near n p))
     (neighbour_order near n)"
proof -
  let ?xs = "map (\<lambda>p. (length (neighbours near n p), p)) [0..<n]"
  have el: "fst x = length (neighbours near n (snd x))" if "x \<in> set (sort ?xs)" for x
    using that by auto
  have "sorted_wrt (\<le>) (sort ?xs)" using sorted_sort [of ?xs] by simp
  then have "sorted_wrt (\<lambda>x y. fst x \<le> fst y) (sort ?xs)"
    by (rule sorted_wrt_mono_rel [rotated]) (auto simp: less_eq_prod_def)
  then have "sorted_wrt (\<lambda>x y. length (neighbours near n (snd x)) \<le> length (neighbours near n (snd y))) (sort ?xs)"
    by (rule sorted_wrt_mono_rel [rotated]) (use el in auto)
  then show ?thesis
    unfolding neighbour_order_def by (simp add: sorted_wrt_map sorted_wrt_rev)
qed

lemma enumerate_counts:
  "map (\<lambda>(x, y). (length y, x)) (enumerate 0 (map f [0..<n]))
     = map (\<lambda>p. (length (f p), p)) [0..<n]"
  by (rule nth_equalityI) (simp_all add: nth_enumerate_eq)

lemma ClusterData_sphere_exclusion:
  assumes rows: "\<forall>i<n. length (row i) = i"
    and data: "data = concat (map row [0..<n])"
    and near: "near = (\<lambda>a b. row (max a b) ! (min a b) \<le> thr)"
  shows "ClusterData data n thr
           = Inr (sphere_exclusion near n (neighbour_order near n) [])"
proof -
  let ?nl = "map (neighbours near n) [0..<n]"
  let ?ts = "rev (sort (map (\<lambda>(x, y). (length y, x)) (enumerate 0 ?nl)))"
  obtain dmIdx where run: "nbr_rows data thr [0..<n] (replicate n [], 0) = Inr (?nl, dmIdx)"
    using nbr_rows_all [OF rows data, of thr] near by blast
  have ord: "map snd ?ts = neighbour_order near n"
    by (simp only: enumerate_counts neighbour_order_def)
  have sym: "\<forall>a b. near a b = near b a" by (simp add: near max.commute min.commute)
  have "cluster_loop ?nl ?ts (replicate n False)
          = sphere_exclusion near n (map snd ?ts) []"
  proof (rule cluster_loop_sphere_exclusion [OF sym refl])
    show "length (replicate n False) = n" by simp
    show "set (map snd ?ts) \<subseteq> {0..<n}" unfolding ord by (simp add: neighbour_order_perm)
    show "distinct (map snd ?ts)" unfolding ord by (rule neighbour_order_perm)
    show "\<forall>q<n. replicate n False ! q \<longrightarrow> q \<in> set []" by simp
    show "\<forall>q<n. q \<in> set [] \<and> \<not> replicate n False ! q \<longrightarrow>
            q \<notin> set (map snd ?ts) \<and> (\<forall>b\<in>set (neighbours near n q). replicate n False ! b)"
      by simp
  qed
  then show ?thesis
    unfolding ClusterData_def run ord by (simp add: Let_def)
qed

lemma neighbours_cong:
  assumes "\<And>p q. p < n \<Longrightarrow> q < n \<Longrightarrow> p \<noteq> q \<Longrightarrow> near p q = near' p q" and "p < n"
  shows "neighbours near n p = neighbours near' n p"
  unfolding neighbours_def using assms by (auto intro!: filter_cong)

lemma sphere_exclusion_cong:
  assumes "\<And>p q. p < n \<Longrightarrow> q < n \<Longrightarrow> p \<noteq> q \<Longrightarrow> near p q = near' p q"
  shows "set order \<subseteq> {0..<n} \<Longrightarrow>
         sphere_exclusion near n order assigned = sphere_exclusion near' n order assigned"
proof (induction order arbitrary: assigned)
  case Nil
  then show ?case by simp
next
  case (Cons p order)
  have pn: "p < n" and sub: "set order \<subseteq> {0..<n}" using Cons.prems by simp_all
  have f: "filter (\<lambda>q. q \<notin> set assigned \<and> q \<noteq> p \<and> near p q) [0..<n]
           = filter (\<lambda>q. q \<notin> set assigned \<and> q \<noteq> p \<and> near' p q) [0..<n]"
    using assms [OF pn] by (intro filter_cong) auto
  show ?case using Cons.IH [OF sub] f by (simp add: Let_def)
qed

lemma neighbour_order_cong:
  assumes "\<And>p q. p < n \<Longrightarrow> q < n \<Longrightarrow> p \<noteq> q \<Longrightarrow> near p q = near' p q"
  shows "neighbour_order near n = neighbour_order near' n"
proof -
  have "map (\<lambda>p. (length (neighbours near n p), p)) [0..<n]
        = map (\<lambda>p. (length (neighbours near' n p), p)) [0..<n]"
    using neighbours_cong [of n near near', OF assms] by (intro map_cong) simp_all
  then show ?thesis by (simp only: neighbour_order_def)
qed

lemma cluster_fingerprints_sphere_exclusion:
  "cluster_fingerprints sim fps cutoff
     = Inr (sphere_exclusion (within_cutoff sim fps cutoff) (length fps)
              (neighbour_order (within_cutoff sim fps cutoff) (length fps)) [])"
proof -
  let ?n = "length fps"
  let ?row = "\<lambda>i. map (\<lambda>x. 1 - x) (BulkTanimotoSimilarity sim (fps ! i) (take i fps))"
  let ?near = "\<lambda>a b. ?row (max a b) ! (min a b) \<le> cutoff"
  let ?w = "within_cutoff sim fps cutoff"
  have rows: "\<forall>i<?n. length (?row i) = i" by (simp add: BulkTanimotoSimilarity_def)
  have r0: "?row 0 = []" by (simp add: BulkTanimotoSimilarity_def)
  have data: "concat (map ?row [1..<?n]) = concat (map ?row [0..<?n])"
  proof (cases "?n = 0")
    case True then show ?thesis by simp
  next
    case False
    then have "[0..<?n] = 0 # [1..<?n]" by (simp add: upt_conv_Cons)
    then show ?thesis using r0 by simp
  qed
  have eq: "?near p q = ?w p q" if "p < ?n" "q < ?n" "p \<noteq> q" for p q
  proof -
    have "min p q < max p q" "max p q < ?n" using that by auto
    then show ?thesis by (simp add: within_cutoff_def BulkTanimotoSimilarity_def)
  qed
  have "cluster_fingerprints sim fps cutoff = ClusterData (concat (map ?row [0..<?n])) ?n cutoff"
    unfolding cluster_fingerprints_def Let_def data ..
  also have "\<dots> = Inr (sphere_exclusion ?near ?n (neighbour_order ?near ?n) [])"
    by (rule ClusterData_sphere_exclusion [OF rows refl refl])
  also have "neighbour_order ?near ?n = neighbour_order ?w ?n"
    by (rule neighbour_order_cong) (rule eq)
  also have "sphere_exclusion ?near ?n (neighbour_order ?w ?n) []
             = sphere_exclusion ?w ?n (neighbour_order ?w ?n) []"
    by (rule sphere_exclusion_cong [OF eq]) (simp_all add: neighbour_order_perm)
  finally show ?thesis .
qed

section \<open>Properties of the clustering\<close>

text \<open>The sample run: six fingerprints at cutoff \<open>1/2\<close>.\<close>

lemma sample_run:
  "cluster_fingerprints TanimotoSimilarity sample_fps (1 / 2) = Inr [[2, 0, 1], [5], [4, 3]]"
  by code_simp

lemma sample_order:
  "neighbour_order (within_cutoff TanimotoSimilarity sample_fps (1 / 2)) (length sample_fps)
     = [2, 0, 5, 4, 3, 1]"
  by code_simp

lemma cluster_fingerprints_partition_aux:
  "\<exists>cs. cluster_fingerprints sim fps cutoff = Inr cs \<and>
        distinct (concat cs) \<and> set (concat cs) = {0..<length fps}"
proof -
  let ?w = "within_cutoff sim fps cutoff"
  let ?n = "length fps"
  let ?cs = "sphere_exclusion ?w ?n (neighbour_order ?w ?n) []"
  have sub: "set (neighbour_order ?w ?n) \<subseteq> {0..<?n}" by (simp add: neighbour_order_perm)
  have p: "distinct (concat ?cs)" "set (concat ?cs) \<subseteq> {0..<?n}"
    "set (neighbour_order ?w ?n) \<subseteq> set [] \<union> set (concat ?cs)"
    using sphere_exclusion_partition [OF sub, of ?w "[]"] by blast+
  have "set (concat ?cs) = {0..<?n}" using p(2,3) by (simp add: neighbour_order_perm)
  then show ?thesis using p(1) cluster_fingerprints_sphere_exclusion [of sim fps cutoff] by blast
qed

text \<open>
  Claim C1. For every similarity, every list of fingerprints and every cutoff (those in
  (0, 1] among them), \<open>cluster_fingerprints\<close> returns clusters, and they are a partition
  of the input indices: listed one after another they hold no index twice, and the
  indices they hold are exactly \<open>0, \<dots>, n - 1\<close>.
\<close>

theorem cluster_fingerprints_partition:
  "\<exists>cs. cluster_fingerprints sim fps cutoff = Inr cs \<and>
        distinct (concat cs) \<and> set (concat cs) = {0..<length fps}"
  by (rule cluster_fingerprints_partition_aux)

theorem cluster_fingerprints_partition_witness:
  "cluster_fingerprints TanimotoSimilarity sample_fps (1 / 2) = Inr [[2, 0, 1], [5], [4, 3]] \<and>
   distinct (concat [[2, 0, 1], [5], [4, 3 :: nat]]) \<and>
   set (concat [[2, 0, 1], [5], [4, 3]]) = {0..<length sample_fps}"
proof -
  obtain cs where a: "cluster_fingerprints TanimotoSimilarity sample_fps (1 / 2) = Inr cs"
    and b: "distinct (concat cs)" and c: "set (concat cs) = {0..<length sample_fps}"
    using cluster_fingerprints_partition [of TanimotoSimilarity sample_fps "1 / 2"] by blast
  have e: "cs = [[2, 0, 1], [5], [4, 3]]" using a sample_run by simp
  show ?thesis using a b c unfolding e by blast
qed

text \<open>
  Claim C3. For every similarity, list of fingerprints and cutoff, the clusters of
  \<open>cluster_fingerprints\<close> are those of the greedy sphere exclusion of the spec, cluster by
  cluster and index by index: the points are processed in a fixed order (by decreasing
  number of neighbours, then by decreasing index), every still unassigned point becomes
  a centroid and absorbs the not yet assigned points within the cutoff of it.
\<close>

theorem cluster_fingerprints_refines_sphere_exclusion:
  "cluster_fingerprints sim fps cutoff
     = Inr (sphere_exclusion (within_cutoff sim fps cutoff) (length fps)
              (neighbour_order (within_cutoff sim fps cutoff) (length fps)) [])"
  by (rule cluster_fingerprints_sphere_exclusion)

theorem cluster_fingerprints_refines_sphere_exclusion_witness:
  "sphere_exclusion (within_cutoff TanimotoSimilarity sample_fps (1 / 2)) (length sample_fps)
     [2, 0, 5, 4, 3, 1] [] = [[2, 0, 1], [5], [4, 3]]"
proof -
  have "Inr (sphere_exclusion (within_cutoff TanimotoSimilarity sample_fps (1 / 2))
          (length sample_fps) [2, 0, 5, 4, 3, 1] []) = (Inr [[2, 0, 1], [5], [4, 3]] :: exn + nat list list)"
    using cluster_fingerprints_refines_sphere_exclusion [of TanimotoSimilarity sample_fps "1 / 2"]
    unfolding sample_run sample_order by (rule sym)
  then show ?thesis by (simp only: sum.inject)
qed

text \<open>
  Claim C4, as stated, fails: on the sample run the clusters have the sizes 3, 1, 2.
\<close>

theorem clusters_not_by_decreasing_size:
  "cluster_fingerprints TanimotoSimilarity sample_fps (1 / 2) = Inr [[2, 0, 1], [5], [4, 3]] \<and>
   \<not> sorted (rev (map length [[2, 0, 1], [5], [4, 3 :: nat]]))"
proof -
  have "\<not> sorted (rev (map length [[2, 0, 1], [5], [4, 3 :: nat]]))" by simp
  then show ?thesis using sample_run by blast
qed

text \<open>
  Claim C4, amended. The clusters of \<open>cluster_fingerprints\<close> are listed by decreasing
  number of neighbours of their first index, the centroid (the number of points within
  the cutoff of it), not by decreasing size. That number plus one bounds the size of the
  cluster, and the first cluster is a largest one. In each cluster the first index is
  the centroid: every other index of the cluster is within the cutoff of it.
\<close>

theorem cluster_fingerprints_centroid_first:
  "\<exists>cs. cluster_fingerprints sim fps cutoff = Inr cs \<and>
     (\<forall>c\<in>set cs. c \<noteq> [] \<and>
        (\<forall>q\<in>set (tl c). within_cutoff sim fps cutoff (hd c) q) \<and>
        length c \<le> 1 + length (neighbours (within_cutoff sim fps cutoff) (length fps) (hd c))) \<and>
     sorted_wrt (\<lambda>c d. length (neighbours (within_cutoff sim fps cutoff) (length fps) (hd d))
                       \<le> length (neighbours (within_cutoff sim fps cutoff) (length fps) (hd c))) cs \<and>
     (\<forall>c\<in>set cs. length c \<le> length (hd cs))"
proof -
  let ?w = "within_cutoff sim fps cutoff"
  let ?n = "length fps"
  let ?ord = "neighbour_order ?w ?n"
  let ?cs = "sphere_exclusion ?w ?n ?ord []"
  let ?cnt = "\<lambda>p. length (neighbours ?w ?n p)"
  have run: "cluster_fingerprints sim fps cutoff = Inr ?cs"
    by (rule cluster_fingerprints_sphere_exclusion)
  have cen: "c \<noteq> [] \<and> hd c \<in> set ?ord \<and> (\<forall>q\<in>set (tl c). ?w (hd c) q) \<and> length c \<le> 1 + ?cnt (hd c)"
    if "c \<in> set ?cs" for c
    using sphere_exclusion_centroid [OF that] by blast
  have srt: "sorted_wrt (\<lambda>p q. ?cnt q \<le> ?cnt p) ?ord" by (rule neighbour_order_sorted)
  have "sorted_wrt (\<lambda>p q. ?cnt q \<le> ?cnt p) (map hd ?cs)"
    by (rule sphere_exclusion_sorted [OF srt])
  then have s: "sorted_wrt (\<lambda>c d. ?cnt (hd d) \<le> ?cnt (hd c)) ?cs"
    by (simp add: sorted_wrt_map)
  have first: "length c \<le> length (hd ?cs)" if c: "c \<in> set ?cs" for c
  proof (cases ?ord)
    case Nil
    then show ?thesis using c by simp
  next
    case (Cons p rest)
    have hd_eq: "hd ?cs = p # neighbours ?w ?n p"
      unfolding Cons by (simp add: Let_def neighbours_def)
    have "hd c \<in> set ?ord" using cen [OF c] by blast
    then have "?cnt (hd c) \<le> ?cnt p" using srt unfolding Cons by auto
    then show ?thesis using cen [OF c] hd_eq by simp
  qed
  show ?thesis using run cen s first by blast
qed

theorem cluster_fingerprints_centroid_first_witness:
  "cluster_fingerprints TanimotoSimilarity sample_fps (1 / 2) = Inr [[2, 0, 1], [5], [4, 3]] \<and>
   within_cutoff TanimotoSimilarity sample_fps (1 / 2) 2 0 \<and>
   within_cutoff TanimotoSimilarity sample_fps (1 / 2) 2 1 \<and>
   within_cutoff TanimotoSimilarity sample_fps (1 / 2) 4 3"
proof -
  obtain cs where a: "cluster_fingerprints TanimotoSimilarity sample_fps (1 / 2) = Inr cs"
    and b: "\<forall>c\<in>set cs. c \<noteq> [] \<and>
        (\<forall>q\<in>set (tl c). within_cutoff TanimotoSimilarity sample_fps (1 / 2) (hd c) q) \<and>
        length c \<le> 1 + length (neighbours (within_cutoff TanimotoSimilarity sample_fps (1 / 2))
                                   (length sample_fps) (hd c))"
    using cluster_fingerprints_centroid_first [of TanimotoSimilarity sample_fps "1 / 2"] by blast
  have e: "cs = [[2, 0, 1], [5], [4, 3]]" using a sample_run by simp
  have "\<forall>q\<in>set (tl [2, 0, 1 :: nat]). within_cutoff TanimotoSimilarity sample_fps (1 / 2) (hd [2, 0, 1]) q"
    using b unfolding e by (metis list.set_intros(1))
  moreover have "\<forall>q\<in>set (tl [4, 3 :: nat]). within_cutoff TanimotoSimilarity sample_fps (1 / 2) (hd [4, 3]) q"
    using b unfolding e by (metis list.set_intros(1) list.set_intros(2))
  ultimately show ?thesis using sample_run by simp
qed

lemma tanimoto_counts:
  "length a = length b \<Longrightarrow>
     length (filter (\<lambda>(p, q). p \<and> q) (zip a b)) \<le> length (filter id a) \<and>
     length (filter (\<lambda>(p, q). p \<and> q) (zip a b)) \<le> length (filter id b) \<and>
     (length (filter (\<lambda>(p, q). p \<and> q) (zip a b)) = length (filter id a) \<and>
      length (filter (\<lambda>(p, q). p \<and> q) (zip a b)) = length (filter id b) \<longrightarrow> a = b)"
proof (induction a b rule: list_induct2)
  case Nil
  then show ?case by simp
next
  case (Cons x xs y ys)
  then show ?case by (cases x; cases y) auto
qed

lemma TanimotoSimilarity_less_one:
  assumes "length a = length b" "a \<noteq> b"
  shows "TanimotoSimilarity a b < 1"
proof -
  let ?x = "length (filter (\<lambda>(p, q). p \<and> q) (zip a b))"
  let ?y = "length (filter id a)"
  let ?z = "length (filter id b)"
  have c: "?x \<le> ?y" "?x \<le> ?z" "\<not> (?x = ?y \<and> ?x = ?z)"
    using tanimoto_counts [OF assms(1)] assms(2) by blast+
  then have lt: "?x < ?y + ?z - ?x" by linarith
  then have "(of_nat ?x :: rat) < of_nat (?y + ?z - ?x)" by (simp only: of_nat_less_iff)
  moreover have "(0 :: rat) < of_nat (?y + ?z - ?x)" using lt by simp
  ultimately have "(of_nat ?x :: rat) / of_nat (?y + ?z - ?x) < 1" by simp
  then show ?thesis using lt by (simp add: TanimotoSimilarity_def Let_def)
qed

lemma cutoff_singletons:
  assumes "\<forall>p<length fps. \<forall>q<p. \<not> within_cutoff sim fps cutoff p q"
  shows "\<exists>cs. cluster_fingerprints sim fps cutoff = Inr cs \<and> (\<forall>c\<in>set cs. length c = 1)"
proof -
  let ?w = "within_cutoff sim fps cutoff"
  let ?n = "length fps"
  have sym: "?w p q = ?w q p" for p q by (simp add: within_cutoff_def max.commute min.commute)
  have far: "\<forall>p<?n. \<forall>q<?n. p \<noteq> q \<longrightarrow> \<not> ?w p q"
  proof (intro allI impI)
    fix p q assume pq: "p < ?n" "q < ?n" "p \<noteq> q"
    show "\<not> ?w p q"
    proof (cases "q < p")
      case True then show ?thesis using assms pq by blast
    next
      case False
      then have "p < q" using pq by simp
      then have "\<not> ?w q p" using assms pq by blast
      then show ?thesis using sym by simp
    qed
  qed
  have sub: "set (neighbour_order ?w ?n) \<subseteq> {0..<?n}" by (simp add: neighbour_order_perm)
  have "\<forall>c\<in>set (sphere_exclusion ?w ?n (neighbour_order ?w ?n) []). length c = 1"
    using sphere_exclusion_singletons [OF far sub] by blast
  then show ?thesis using cluster_fingerprints_sphere_exclusion [of sim fps cutoff] by blast
qed

lemma sample_run_zero:
  "cluster_fingerprints TanimotoSimilarity sample_fps 0 = Inr [[5], [4], [3], [2], [1], [0]]"
  by code_simp

text \<open>
  Claim C5, as stated, fails: of the three sample fingerprints the first two are
  identical and the third differs from them, so the input is not pairwise identical,
  yet at cutoff 0 the first two share a cluster.
\<close>

theorem cutoff_zero_twins_cluster_together:
  "sample_twins ! 0 \<noteq> sample_twins ! 2 \<and>
   cluster_fingerprints TanimotoSimilarity sample_twins 0 = Inr [[1, 0], [2]]"
  by code_simp

text \<open>
  Claim C5, amended. With cutoff 0, \<open>cluster_fingerprints\<close> returns only singleton
  clusters unless two of the input fingerprints are at distance 0 (or less) from each
  other; for the Tanimoto similarity of bit vectors of one length that is: unless two
  of the input fingerprints are identical.
\<close>

theorem cutoff_zero_singletons:
  "((\<forall>p<length fps. \<forall>q<p. \<not> within_cutoff sim fps 0 p q) \<longrightarrow>
      (\<exists>cs. cluster_fingerprints sim fps 0 = Inr cs \<and> (\<forall>c\<in>set cs. length c = 1))) \<and>
   ((\<forall>a\<in>set bfps. length a = m) \<and> distinct bfps \<longrightarrow>
      (\<exists>cs. cluster_fingerprints TanimotoSimilarity bfps 0 = Inr cs \<and>
            (\<forall>c\<in>set cs. length c = 1)))"
proof (intro conjI impI)
  assume "\<forall>p<length fps. \<forall>q<p. \<not> within_cutoff sim fps 0 p q"
  then show "\<exists>cs. cluster_fingerprints sim fps 0 = Inr cs \<and> (\<forall>c\<in>set cs. length c = 1)"
    by (rule cutoff_singletons)
next
  assume h: "(\<forall>a\<in>set bfps. length a = m) \<and> distinct bfps"
  have "\<forall>p<length bfps. \<forall>q<p. \<not> within_cutoff TanimotoSimilarity bfps 0 p q"
  proof (intro allI impI)
    fix p q assume pq: "p < length bfps" "q < p"
    then have "length (bfps ! p) = length (bfps ! q)" using h by simp
    moreover have "bfps ! p \<noteq> bfps ! q" using h pq by (simp add: nth_eq_iff_index_eq)
    ultimately have "TanimotoSimilarity (bfps ! p) (bfps ! q) < 1"
      by (rule TanimotoSimilarity_less_one)
    then show "\<not> within_cutoff TanimotoSimilarity bfps 0 p q"
      using pq by (simp add: within_cutoff_def max_def min_def)
  qed
  then show "\<exists>cs. cluster_fingerprints TanimotoSimilarity bfps 0 = Inr cs \<and>
                 (\<forall>c\<in>set cs. length c = 1)"
    by (rule cutoff_singletons)
qed

theorem cutoff_zero_singletons_witness:
  "map length sample_fps = [8, 8, 8, 8, 8, 8] \<and> distinct sample_fps \<and>
   cluster_fingerprints TanimotoSimilarity sample_fps 0 = Inr [[5], [4], [3], [2], [1], [0]]"
proof -
  have l: "map length sample_fps = [8, 8, 8, 8, 8, 8]" by (simp add: sample_fps_def)
  have h: "(\<forall>a\<in>set sample_fps. length a = 8) \<and> distinct sample_fps"
    by (simp add: sample_fps_def)
  have "\<exists>cs. cluster_fingerprints TanimotoSimilarity sample_fps 0 = Inr cs \<and>
             (\<forall>c\<in>set cs. length c = 1)"
    using cutoff_zero_singletons [of "[]" "\<lambda>a b. 0 :: rat" sample_fps 8] h by blast
  then show ?thesis using l h sample_run_zero by blast
qed

section \<open>The data-frame operations\<close>

lemma map_of_map_col:
  "map_of (map (\<lambda>(c, cells). if c = col then (c, f cells) else (c, cells)) cols) col'
     = (if col' = col then map_option f (map_of cols col) else map_of cols col')"
  by (induction cols) auto

lemma at_set_index:
  "label \<in> set (index fr) \<Longrightarrow> index (at_set fr label col v) = index fr"
  by (simp add: at_set_def Let_def)

lemma at_set_names:
  "label \<in> set (index fr) \<Longrightarrow>
     names (at_set fr label col v) = (if col \<in> set (names fr) then names fr else names fr @ [col])"
  by (auto simp: at_set_def Let_def names_def comp_def case_prod_unfold intro!: map_cong)

lemma at_set_other:
  assumes "label \<in> set (index fr)" "k < length (columns fr)" "fst (columns fr ! k) \<noteq> col"
  shows "columns (at_set fr label col v) ! k = columns fr ! k"
  using assms by (auto simp: at_set_def Let_def names_def nth_append case_prod_unfold)

lemma at_get_at_set_other:
  assumes "label \<in> set (index fr)" "col' \<noteq> col"
  shows "at_get (at_set fr label col v) l col' = at_get fr l col'"
proof -
  have i: "index (at_set fr label col v) = index fr" using assms(1) by (rule at_set_index)
  have "map_of (columns (at_set fr label col v)) col' = map_of (columns fr) col'"
    using assms by (auto simp: at_set_def Let_def map_of_map_col names_def map_add_def split: option.splits)
  then show ?thesis unfolding at_get_def i by simp
qed

lemma set_descriptors_props:
  assumes "i \<in> set (index fr)" "distinct (map fst dds)"
  shows "index (set_descriptors i dds fr) = index fr \<and>
         names (set_descriptors i dds fr)
           = names fr @ filter (\<lambda>d. d \<notin> set (names fr)) (map fst dds) \<and>
         (\<forall>k<length (columns fr). fst (columns fr ! k) \<notin> set (map fst dds) \<longrightarrow>
            columns (set_descriptors i dds fr) ! k = columns fr ! k) \<and>
         (\<forall>l col'. col' \<notin> set (map fst dds) \<longrightarrow>
            at_get (set_descriptors i dds fr) l col' = at_get fr l col')"
  using assms
proof (induction dds arbitrary: fr)
  case Nil
  then show ?case by simp
next
  case (Cons dd rest)
  obtain desc d where dd: "dd = (desc, d)" by (cases dd)
  let ?fr1 = "at_set fr i desc (CNum d)"
  have i1: "index ?fr1 = index fr" using Cons.prems(1) by (rule at_set_index)
  have n1: "names ?fr1 = (if desc \<in> set (names fr) then names fr else names fr @ [desc])"
    using Cons.prems(1) by (rule at_set_names)
  have dr: "distinct (map fst rest)" and nd: "desc \<notin> set (map fst rest)"
    using Cons.prems(2) dd by simp_all
  have in1: "i \<in> set (index ?fr1)" using i1 Cons.prems(1) by simp
  note ih = Cons.IH [OF in1 dr]
  have len: "length (columns fr) \<le> length (columns ?fr1)"
    using n1 by (metis length_append length_map names_def le_add1 order_refl)
  have a: "index (set_descriptors i (dd # rest) fr) = index fr"
    using ih i1 dd by simp
  have f: "filter (\<lambda>x. x \<notin> set (names ?fr1)) (map fst rest)
            = filter (\<lambda>x. x \<notin> set (names fr)) (map fst rest)"
    using nd n1 by (intro filter_cong) auto
  have b: "names (set_descriptors i (dd # rest) fr)
           = names fr @ filter (\<lambda>x. x \<notin> set (names fr)) (map fst (dd # rest))"
    using ih f n1 dd by simp
  have c: "columns (set_descriptors i (dd # rest) fr) ! k = columns fr ! k"
    if k: "k < length (columns fr)" "fst (columns fr ! k) \<notin> set (map fst (dd # rest))" for k
  proof -
    have k1: "columns ?fr1 ! k = columns fr ! k"
      using at_set_other [OF Cons.prems(1) k(1)] k(2) dd by simp
    have "columns (set_descriptors i rest ?fr1) ! k = columns ?fr1 ! k"
      using ih k len k1 by simp
    then show ?thesis using k1 dd by simp
  qed
  have e: "at_get (set_descriptors i (dd # rest) fr) l col' = at_get fr l col'"
    if "col' \<notin> set (map fst (dd # rest))" for l col'
  proof -
    have "at_get ?fr1 l col' = at_get fr l col'"
      using at_get_at_set_other [OF Cons.prems(1)] that dd by simp
    moreover have "at_get (set_descriptors i rest ?fr1) l col' = at_get ?fr1 l col'"
      using ih that by simp
    ultimately show ?thesis using dd by simp
  qed
  show ?case using a b c e by blast
qed

lemma descriptor_rows_props:
  assumes d: "distinct descs" and m: "molcol \<notin> set descs"
  shows "set ls \<subseteq> set (index fr) \<Longrightarrow>
         (\<forall>l\<in>set ls. \<exists>c cd. at_get fr l molcol = Inr c \<and> Calc descs c = Inr cd \<and>
                                length cd = length descs) \<Longrightarrow>
         \<exists>fr'. descriptor_rows Calc descs molcol ls fr = (fr', None) \<and>
               index fr' = index fr \<and>
               names fr' = (if ls = [] then names fr
                            else names fr @ filter (\<lambda>x. x \<notin> set (names fr)) descs) \<and>
               (\<forall>k<length (columns fr). fst (columns fr ! k) \<notin> set descs \<longrightarrow>
                  columns fr' ! k = columns fr ! k)"
proof (induction ls arbitrary: fr)
  case Nil
  then show ?case by simp
next
  case (Cons l ls)
  have lin: "l \<in> set (index fr)" and sub: "set ls \<subseteq> set (index fr)"
    using Cons.prems(1) by simp_all
  obtain c cd where c: "at_get fr l molcol = Inr c" and cd: "Calc descs c = Inr cd"
    and len: "length cd = length descs"
    using Cons.prems(2) by auto
  let ?dds = "zip descs cd"
  let ?fr1 = "set_descriptors l ?dds fr"
  have fstz: "map fst ?dds = descs" using len by simp
  have p: "index ?fr1 = index fr"
    "names ?fr1 = names fr @ filter (\<lambda>x. x \<notin> set (names fr)) descs"
    "\<forall>k<length (columns fr). fst (columns fr ! k) \<notin> set descs \<longrightarrow>
        columns ?fr1 ! k = columns fr ! k"
    "\<forall>l' col'. col' \<notin> set descs \<longrightarrow> at_get ?fr1 l' col' = at_get fr l' col'"
    using set_descriptors_props [OF lin, of ?dds] d unfolding fstz by blast+
  have sub1: "set ls \<subseteq> set (index ?fr1)" using sub p(1) by simp
  have valid1: "\<forall>l'\<in>set ls. \<exists>c cd. at_get ?fr1 l' molcol = Inr c \<and> Calc descs c = Inr cd \<and>
                                length cd = length descs"
    using Cons.prems(2) p(4) m by simp
  obtain fr' where r: "descriptor_rows Calc descs molcol ls ?fr1 = (fr', None)"
    and i': "index fr' = index ?fr1"
    and n': "names fr' = (if ls = [] then names ?fr1
                          else names ?fr1 @ filter (\<lambda>x. x \<notin> set (names ?fr1)) descs)"
    and k': "\<forall>k<length (columns ?fr1). fst (columns ?fr1 ! k) \<notin> set descs \<longrightarrow>
                columns fr' ! k = columns ?fr1 ! k"
    using Cons.IH [OF sub1 valid1] by blast
  have all_in: "filter (\<lambda>x. x \<notin> set (names ?fr1)) descs = []"
    unfolding p(2) by (auto simp: filter_empty_conv)
  have names': "names fr' = names fr @ filter (\<lambda>x. x \<notin> set (names fr)) descs"
    using n' all_in p(2) by simp
  have lenc: "length (columns fr) \<le> length (columns ?fr1)"
    using p(2) by (metis length_append length_map names_def le_add1)
  have cols: "columns fr' ! k = columns fr ! k"
    if "k < length (columns fr)" "fst (columns fr ! k) \<notin> set descs" for k
  proof -
    have e: "columns ?fr1 ! k = columns fr ! k" using p(3) that by blast
    then have "columns fr' ! k = columns ?fr1 ! k" using k' that lenc by simp
    then show ?thesis using e by simp
  qed
  have run: "descriptor_rows Calc descs molcol (l # ls) fr = (fr', None)"
    using c cd r by simp
  show ?case using run i' p(1) names' cols by auto
qed

lemma calculate_descriptors_appends_aux:
  assumes rows: "index (h df) \<noteq> []"
    and dist: "distinct (map fst descList)"
    and fresh: "set (map fst descList) \<inter> set (names (h df)) = {}"
    and valid: "\<forall>l\<in>set (index (h df)). \<exists>c cd.
                  at_get (h df) l molecule_column = Inr c \<and>
                  CalcDescriptors (map fst descList) c = Inr cd \<and>
                  length cd = length descList"
  shows "\<exists>h'. calculate_descriptors descList CalcDescriptors h df molecule_column = (h', Inr PyNone) \<and>
           names (h' df) = names (h df) @ map fst descList \<and>
           take (length (columns (h df))) (columns (h' df)) = columns (h df) \<and>
           index (h' df) = index (h df) \<and>
           (\<forall>a. a \<noteq> df \<longrightarrow> h' a = h a)"
proof -
  let ?descs = "map fst descList"
  let ?fr = "h df"
  obtain l where l: "l \<in> set (index ?fr)" using rows by (cases "index ?fr") auto
  then obtain c where "at_get ?fr l molecule_column = Inr c" using valid by blast
  then have "map_of (columns ?fr) molecule_column \<noteq> None"
    by (auto simp: at_get_def split: option.splits)
  then have "molecule_column \<in> set (names ?fr)"
    by (auto simp: names_def dest: map_of_SomeD intro: rev_image_eqI)
  then have m: "molecule_column \<notin> set ?descs" using fresh by blast
  have valid': "\<forall>l\<in>set (index ?fr). \<exists>c cd. at_get ?fr l molecule_column = Inr c \<and>
                  CalcDescriptors ?descs c = Inr cd \<and> length cd = length ?descs"
    using valid by simp
  obtain fr' where r: "descriptor_rows CalcDescriptors ?descs molecule_column (index ?fr) ?fr = (fr', None)"
    and i': "index fr' = index ?fr"
    and n': "names fr' = (if index ?fr = [] then names ?fr
                          else names ?fr @ filter (\<lambda>x. x \<notin> set (names ?fr)) ?descs)"
    and k': "\<forall>k<length (columns ?fr). fst (columns ?fr ! k) \<notin> set ?descs \<longrightarrow>
                columns fr' ! k = columns ?fr ! k"
    using descriptor_rows_props [of ?descs molecule_column "index ?fr" ?fr CalcDescriptors, OF dist m subset_refl valid'] by blast
  have f: "filter (\<lambda>x. x \<notin> set (names ?fr)) ?descs = ?descs"
    using fresh by (auto simp: filter_id_conv)
  have names': "names fr' = names ?fr @ ?descs" using n' rows f by simp
  have lenc: "length (columns ?fr) \<le> length (columns fr')"
    using names' by (metis length_append length_map names_def le_add1)
  have "take (length (columns ?fr)) (columns fr') = columns ?fr"
  proof (rule nth_equalityI)
    show "length (take (length (columns ?fr)) (columns fr')) = length (columns ?fr)"
      using lenc by simp
  next
    fix k assume "k < length (take (length (columns ?fr)) (columns fr'))"
    then have k: "k < length (columns ?fr)" by simp
    then have "fst (columns ?fr ! k) \<in> set (names ?fr)" by (simp add: names_def)
    then have "fst (columns ?fr ! k) \<notin> set ?descs" using fresh by blast
    then show "take (length (columns ?fr)) (columns fr') ! k = columns ?fr ! k"
      using k' k by simp
  qed
  then show ?thesis
    using r i' names' by (simp add: calculate_descriptors_def Let_def)
qed

lemma returns_strong_aux:
  "(\<forall>h' v. calculate_descriptors descList CalcDescriptors h df molecule_column = (h', Inr v) \<longrightarrow>
       v = PyNone \<and> v \<noteq> PyRef df \<and>
       h' = h(df := fst (descriptor_rows CalcDescriptors (map fst descList) molecule_column
                           (index (h df)) (h df)))) \<and>
   (\<forall>h' v. add_mol_column AddMoleculeColumnToFrame h df smiles_col molecule_col = (h', Inr v) \<longrightarrow>
       v = PyRef df \<and>
       h' = h(df := fst (AddMoleculeColumnToFrame (h df) smiles_col molecule_col True)))"
  by (auto simp: calculate_descriptors_def add_mol_column_def Let_def
      split: prod.splits option.splits)

lemma zip_lookup:
  "distinct ls \<Longrightarrow> length xs = length ls \<Longrightarrow> j < length ls \<Longrightarrow>
     map snd (filter (\<lambda>(l, x). l = ls ! j) (zip ls xs)) = [xs ! j]"
proof (induction ls arbitrary: xs j)
  case Nil
  then show ?case by simp
next
  case (Cons l ls)
  obtain x xs' where xs: "xs = x # xs'" using Cons.prems(2) by (cases xs) auto
  show ?case
  proof (cases j)
    case 0
    have "filter (\<lambda>(l', x). l' = l) (zip ls xs') = []"
      using Cons.prems(1) by (auto simp: filter_empty_conv dest: set_zip_leftD)
    then show ?thesis using 0 xs by simp
  next
    case (Suc j')
    then have "ls ! j' \<noteq> l" using Cons.prems(1,3) by auto
    then show ?thesis using Suc xs Cons.IH [of xs' j'] Cons.prems by auto
  qed
qed


lemma at_get_unique:
  assumes "distinct (index fr)" "map_of (columns fr) col = Some cells"
    "length cells = length (index fr)" "j < length (index fr)"
  shows "at_get fr (index fr ! j) col = Inr (cells ! j)"
  using assms zip_lookup [of "index fr" cells j] by (simp add: at_get_def)




lemma map_of_replace_col:
  "map_of (map (\<lambda>(c, old). if c = col then (c, cells) else (c, old)) cols) col'
     = (if col' = col then map_option (\<lambda>old. cells) (map_of cols col) else map_of cols col')"
  by (induction cols) auto

lemma set_column_index: "index (set_column fr col cells) = index fr"
  by (simp add: set_column_def)

lemma set_column_get:
  "map_of (columns (set_column fr col cells)) col'
     = (if col' = col then Some cells else map_of (columns fr) col')"
proof (cases "col \<in> set (names fr)")
  case True
  then obtain old where "map_of (columns fr) col = Some old"
    by (metis names_def list.set_map map_of_eq_None_iff not_Some_eq)
  then show ?thesis using True by (simp add: set_column_def map_of_replace_col)
next
  case False
  then have "map_of (columns fr) col = None"
    by (simp add: names_def map_of_eq_None_iff)
  then show ?thesis using False
    by (auto simp: set_column_def map_add_def split: option.splits)
qed

lemma set_column_well_formed:
  assumes "well_formed fr" "length cells = length (index fr)"
  shows "well_formed (set_column fr col cells)"
  using assms by (fastforce simp: well_formed_def set_column_def list_all_iff split: if_splits)

lemma well_formed_get:
  assumes "well_formed fr" "map_of (columns fr) col = Some cells"
  shows "length cells = length (index fr)"
  using assms by (auto simp: well_formed_def list_all_iff dest!: map_of_SomeD)

lemma map_exn_Inr:
  "map_exn f xs = Inr ys \<Longrightarrow> length ys = length xs \<and> (\<forall>j<length xs. f (xs ! j) = Inr (ys ! j))"
proof (induction xs arbitrary: ys)
  case Nil
  then show ?case by simp
next
  case (Cons x xs)
  then obtain y ys' where y: "f x = Inr y" and r: "map_exn f xs = Inr ys'" and e: "ys = y # ys'"
    by (auto split: sum.splits)
  have "length ys' = length xs \<and> (\<forall>j<length xs. f (xs ! j) = Inr (ys' ! j))"
    using Cons.IH [OF r] .
  then show ?case using y e by (auto simp: nth_Cons split: nat.splits)
qed

lemma reset_index_Inr:
  assumes "reset_index fr = Inr df2a"
  shows "index df2a = map (\<lambda>k. CInt (int k)) [0..<length (index fr)] \<and>
         (\<exists>name. name \<notin> set (names fr) \<and> columns df2a = (name, index fr) # columns fr)"
  using assms by (auto simp: reset_index_def Let_def split: if_splits)

lemma set_column_names:
  "names (set_column fr col cells) = (if col \<in> set (names fr) then names fr else names fr @ [col])"
  by (auto simp: set_column_def names_def comp_def case_prod_unfold intro!: map_cong)


lemma at_set_cells:
  assumes "label \<in> set (index fr)" "map_of (columns fr) col = Some cells"
  shows "index (at_set fr label col v) = index fr \<and>
         map_of (columns (at_set fr label col v)) col
           = Some (map (\<lambda>(l, x). if l = label then v else x) (zip (index fr) cells))"
proof -
  have c: "col \<in> set (names fr)"
    using assms(2) by (auto simp: names_def dest: map_of_SomeD intro: rev_image_eqI)
  show ?thesis using c assms by (simp add: at_set_def Let_def map_of_map_col)
qed

lemma label_cluster_general:
  assumes df2: "\<forall>j<length idx. at_get df2 (CInt (int j)) ''df_index'' = Inr (idx ! j)"
  shows "index fr = idx \<Longrightarrow> map_of (columns fr) col = Some cells \<Longrightarrow>
         length cells = length idx \<Longrightarrow> \<forall>j\<in>set c. j < length idx \<Longrightarrow>
         \<exists>fr' cells'. label_cluster df2 col i c fr = (fr', None) \<and> index fr' = idx \<and>
            map_of (columns fr') col = Some cells' \<and> length cells' = length idx \<and>
            (\<forall>j\<in>set c. cells' ! j = CInt (int i)) \<and>
            (\<forall>p<length idx. cells' ! p = CInt (int i) \<or> cells' ! p = cells ! p)"
proof (induction c arbitrary: fr cells)
  case Nil
  then show ?case by simp
next
  case (Cons j c)
  have jn: "j < length idx" and cn: "\<forall>j\<in>set c. j < length idx" using Cons.prems(4) by simp_all
  have g: "at_get df2 (CInt (int j)) ''df_index'' = Inr (idx ! j)" using df2 jn by blast
  let ?v = "CInt (int i)"
  let ?fr1 = "at_set fr (idx ! j) col ?v"
  let ?cells1 = "map (\<lambda>(l, x). if l = idx ! j then ?v else x) (zip idx cells)"
  have lin: "idx ! j \<in> set (index fr)" using jn Cons.prems(1) by simp
  have s: "index ?fr1 = idx" "map_of (columns ?fr1) col = Some ?cells1"
    using at_set_cells [OF lin Cons.prems(2), of ?v] Cons.prems(1) by simp_all
  have l1: "length ?cells1 = length idx" using Cons.prems(3) by simp
  have c1: "?cells1 ! p = (if idx ! p = idx ! j then ?v else cells ! p)" if "p < length idx" for p
    using that Cons.prems(3) by simp
  obtain fr' cells' where r: "label_cluster df2 col i c ?fr1 = (fr', None)"
    and i': "index fr' = idx" and m': "map_of (columns fr') col = Some cells'"
    and l': "length cells' = length idx"
    and a': "\<forall>j\<in>set c. cells' ! j = ?v"
    and b': "\<forall>p<length idx. cells' ! p = ?v \<or> cells' ! p = ?cells1 ! p"
    using Cons.IH [OF s(1) s(2) l1 cn] by blast
  have run: "label_cluster df2 col i (j # c) fr = (fr', None)" using g r by simp
  have a: "\<forall>k\<in>set (j # c). cells' ! k = ?v"
  proof
    fix k assume k: "k \<in> set (j # c)"
    show "cells' ! k = ?v"
    proof (cases "k \<in> set c")
      case True then show ?thesis using a' by blast
    next
      case False
      then have kj: "k = j" using k by simp
      have "cells' ! j = ?v \<or> cells' ! j = ?cells1 ! j" using b' jn by blast
      then show ?thesis using c1 [OF jn] kj by auto
    qed
  qed
  have b: "\<forall>p<length idx. cells' ! p = ?v \<or> cells' ! p = cells ! p"
  proof (intro allI impI)
    fix p assume p: "p < length idx"
    have "cells' ! p = ?v \<or> cells' ! p = ?cells1 ! p" using b' p by blast
    then show "cells' ! p = ?v \<or> cells' ! p = cells ! p" using c1 [OF p] by auto
  qed
  show ?case using run i' m' l' a b by blast
qed

lemma label_clusters_general:
  assumes df2: "\<forall>j<length idx. at_get df2 (CInt (int j)) ''df_index'' = Inr (idx ! j)"
  shows "index fr = idx \<Longrightarrow> map_of (columns fr) col = Some cells \<Longrightarrow>
         length cells = length idx \<Longrightarrow>
         \<forall>i\<in>set is. \<forall>j\<in>set (cs ! i). j < length idx \<Longrightarrow>
         \<exists>fr' cells'. label_clusters df2 col cs is fr = (fr', None) \<and> index fr' = idx \<and>
            map_of (columns fr') col = Some cells' \<and> length cells' = length idx \<and>
            (\<forall>i\<in>set is. \<forall>j\<in>set (cs ! i). \<exists>k\<in>set is. cells' ! j = CInt (int k)) \<and>
            (\<forall>p<length idx. (\<exists>k\<in>set is. cells' ! p = CInt (int k)) \<or> cells' ! p = cells ! p)"
proof (induction "is" arbitrary: fr cells)
  case Nil
  then show ?case by simp
next
  case (Cons i "is")
  have ci: "\<forall>j\<in>set (cs ! i). j < length idx" and
    rest: "\<forall>i\<in>set is. \<forall>j\<in>set (cs ! i). j < length idx"
    using Cons.prems(4) by simp_all
  obtain fr1 cells1 where r1: "label_cluster df2 col i (cs ! i) fr = (fr1, None)"
    and i1: "index fr1 = idx" and m1: "map_of (columns fr1) col = Some cells1"
    and l1: "length cells1 = length idx"
    and a1: "\<forall>j\<in>set (cs ! i). cells1 ! j = CInt (int i)"
    and b1: "\<forall>p<length idx. cells1 ! p = CInt (int i) \<or> cells1 ! p = cells ! p"
    using label_cluster_general [OF df2 Cons.prems(1,2,3) ci, of i] by blast
  obtain fr' cells' where r: "label_clusters df2 col cs is fr1 = (fr', None)"
    and i': "index fr' = idx" and m': "map_of (columns fr') col = Some cells'"
    and l': "length cells' = length idx"
    and a': "\<forall>i\<in>set is. \<forall>j\<in>set (cs ! i). \<exists>k\<in>set is. cells' ! j = CInt (int k)"
    and b': "\<forall>p<length idx. (\<exists>k\<in>set is. cells' ! p = CInt (int k)) \<or> cells' ! p = cells1 ! p"
    using Cons.IH [OF i1 m1 l1 rest] by blast
  have run: "label_clusters df2 col cs (i # is) fr = (fr', None)" using r1 r by simp
  have b: "\<forall>p<length idx. (\<exists>k\<in>set (i # is). cells' ! p = CInt (int k)) \<or> cells' ! p = cells ! p"
  proof (intro allI impI)
    fix p assume p: "p < length idx"
    have 1: "(\<exists>k\<in>set is. cells' ! p = CInt (int k)) \<or> cells' ! p = cells1 ! p" using b' p by blast
    have 2: "cells1 ! p = CInt (int i) \<or> cells1 ! p = cells ! p" using b1 p by blast
    show "(\<exists>k\<in>set (i # is). cells' ! p = CInt (int k)) \<or> cells' ! p = cells ! p"
      using 1 2 by auto
  qed
  have a: "\<forall>k\<in>set (i # is). \<forall>j\<in>set (cs ! k). \<exists>k'\<in>set (i # is). cells' ! j = CInt (int k')"
  proof (intro ballI)
    fix k j assume k: "k \<in> set (i # is)" and j: "j \<in> set (cs ! k)"
    show "\<exists>k'\<in>set (i # is). cells' ! j = CInt (int k')"
    proof (cases "k \<in> set is")
      case True
      then show ?thesis using a' j by auto
    next
      case False
      then have ki: "k = i" using k by simp
      have jn: "j < length idx" using ci j ki by blast
      have 1: "(\<exists>k\<in>set is. cells' ! j = CInt (int k)) \<or> cells' ! j = cells1 ! j"
        using b' jn by blast
      have 2: "cells1 ! j = CInt (int i)" using a1 j ki by blast
      show ?thesis using 1 2 by auto
    qed
  qed
  show ?case using run i' m' l' a b by blast
qed


lemma cluster_dataframe_core_general:
  assumes wf: "well_formed (h df)"
    and ri: "reset_index (set_column (h df) cluster_column
                (replicate (length (index (h df))) (CInt (- 1)))) = Inr df2a"
    and fo: "fingerprints_of fp (set_column df2a ''df_index'' (index (h df))) molecule_column
               = Inr fps"
  shows "\<exists>cs fr2 cells. cluster_fingerprints sim fps cutoff = Inr cs \<and>
           cluster_dataframe fp sim h df molecule_column cluster_column cutoff
             = (h(df := fr2), Inr PyNone) \<and>
           length fps = length (index (h df)) \<and>
           distinct (concat cs) \<and> set (concat cs) = {0..<length fps} \<and>
           (molecule_column \<in> set (names (h df)) \<and> molecule_column \<noteq> cluster_column \<and>
              molecule_column \<noteq> ''df_index'' \<longrightarrow>
              (\<exists>mols. get_column (h df) molecule_column = Inr mols \<and>
                      (\<forall>j<length fps. fp (mols ! j) 2 1024 = Inr (fps ! j)))) \<and>
           index fr2 = index (h df) \<and>
           get_column fr2 cluster_column = Inr cells \<and>
           length cells = length (index (h df)) \<and>
           (\<forall>p<length cells. \<exists>i<length cs. cells ! p = CInt (int i))"
proof -
  let ?idx = "index (h df)"
  let ?n = "length ?idx"
  let ?fr1 = "set_column (h df) cluster_column (replicate ?n (CInt (- 1)))"
  let ?df2 = "set_column df2a ''df_index'' ?idx"
  have i1: "index ?fr1 = ?idx" by (rule set_column_index)
  have wf1: "well_formed ?fr1" using wf by (intro set_column_well_formed) simp_all
  have m1: "map_of (columns ?fr1) cluster_column = Some (replicate ?n (CInt (- 1)))"
    by (simp add: set_column_get)
  obtain name where i2a: "index df2a = map (\<lambda>k. CInt (int k)) [0..<?n]"
    and nm: "name \<notin> set (names ?fr1)" and c2a: "columns df2a = (name, ?idx) # columns ?fr1"
    using reset_index_Inr [OF ri] i1 by auto
  have wf2a: "well_formed df2a"
    using wf1 i1 by (simp add: well_formed_def i2a c2a)
  have i2: "index ?df2 = map (\<lambda>k. CInt (int k)) [0..<?n]" using i2a by (simp add: set_column_index)
  have wf2: "well_formed ?df2" using wf2a i2a by (intro set_column_well_formed) simp_all
  have d2: "distinct (index ?df2)" unfolding i2 by (simp add: distinct_map inj_on_def)
  have g2: "\<forall>j<?n. at_get ?df2 (CInt (int j)) ''df_index'' = Inr (?idx ! j)"
  proof (intro allI impI)
    fix j assume j: "j < ?n"
    have "at_get ?df2 (index ?df2 ! j) ''df_index'' = Inr (?idx ! j)"
      using j i2 by (intro at_get_unique [OF d2]) (simp_all add: set_column_get)
    then show "at_get ?df2 (CInt (int j)) ''df_index'' = Inr (?idx ! j)" using j i2 by simp
  qed
  obtain mols where gm: "get_column ?df2 molecule_column = Inr mols"
    and me: "map_exn (\<lambda>x. fp x 2 1024) mols = Inr fps"
    using fo by (auto simp: fingerprints_of_def split: sum.splits)
  have "map_of (columns ?df2) molecule_column = Some mols"
    using gm by (auto simp: get_column_def split: option.splits)
  then have lm: "length mols = ?n" using well_formed_get [OF wf2] i2 by simp
  have fl: "length fps = length mols" "\<forall>j<length mols. fp (mols ! j) 2 1024 = Inr (fps ! j)"
    using map_exn_Inr [OF me] by blast+
  have lf: "length fps = ?n" using fl(1) lm by simp
  obtain cs where cf: "cluster_fingerprints sim fps cutoff = Inr cs"
    and part: "distinct (concat cs)" "set (concat cs) = {0..<length fps}"
    using cluster_fingerprints_partition_aux [of sim fps cutoff] by blast
  have sc: "set (concat cs) = {0..<?n}" using part lf by simp
  have inr: "\<forall>i\<in>set [0..<length cs]. \<forall>j\<in>set (cs ! i). j < length (index ?fr1)"
  proof (intro ballI)
    fix i j assume "i \<in> set [0..<length cs]" "j \<in> set (cs ! i)"
    then have "j \<in> set (concat cs)" by (auto intro: nth_mem)
    then have "j \<in> {0..<?n}" unfolding sc .
    then show "j < length (index ?fr1)" unfolding i1 by simp
  qed
  have g2': "\<forall>j<length (index ?fr1). at_get ?df2 (CInt (int j)) ''df_index'' = Inr (index ?fr1 ! j)"
    using g2 i1 by simp
  have lr: "length (replicate ?n (CInt (- 1))) = length (index ?fr1)" unfolding i1 by simp
  obtain fr2 cells where r: "label_clusters ?df2 cluster_column cs [0..<length cs] ?fr1 = (fr2, None)"
    and i': "index fr2 = index ?fr1"
    and m': "map_of (columns fr2) cluster_column = Some cells"
    and l': "length cells = length (index ?fr1)"
    and a': "\<forall>i\<in>set [0..<length cs]. \<forall>j\<in>set (cs ! i).
               \<exists>k\<in>set [0..<length cs]. cells ! j = CInt (int k)"
    using label_clusters_general [OF g2' refl m1 lr inr] by blast
  have if2: "index fr2 = ?idx" using i' i1 by simp
  have lc: "length cells = ?n" using l' i1 by simp
  have gc: "get_column fr2 cluster_column = Inr cells" using m' by (simp add: get_column_def)
  have every: "\<exists>i<length cs. cells ! p = CInt (int i)" if "p < length cells" for p
  proof -
    have "p \<in> {0..<?n}" using that lc by simp
    then have "p \<in> set (concat cs)" unfolding sc .
    then obtain c where "c \<in> set cs" "p \<in> set c" by auto
    then obtain i where "i < length cs" "p \<in> set (cs ! i)" by (auto simp: in_set_conv_nth)
    then have "\<exists>k\<in>set [0..<length cs]. cells ! p = CInt (int k)" using a' by simp
    then show ?thesis by auto
  qed
  have link: "\<exists>mols. get_column (h df) molecule_column = Inr mols \<and>
                 (\<forall>j<length fps. fp (mols ! j) 2 1024 = Inr (fps ! j))"
    if "molecule_column \<in> set (names (h df))" "molecule_column \<noteq> cluster_column"
       "molecule_column \<noteq> ''df_index''"
  proof -
    have in1: "molecule_column \<in> set (names ?fr1)"
      using that(1) by (simp add: set_column_names)
    then have "molecule_column \<noteq> name" using nm by blast
    then have "map_of (columns ?df2) molecule_column = map_of (columns (h df)) molecule_column"
      using that by (simp add: set_column_get c2a)
    then have "get_column (h df) molecule_column = Inr mols"
      using gm by (simp add: get_column_def)
    then show ?thesis using fl by simp
  qed
  have res: "cluster_dataframe fp sim h df molecule_column cluster_column cutoff
               = (h(df := fr2), Inr PyNone)"
    using ri fo cf r by (simp add: cluster_dataframe_def Let_def i1)
  show ?thesis
    using cf res lf part link if2 gc lc every
    by (intro exI [of _ cs] exI [of _ fr2] exI [of _ cells]) simp
qed


lemma map_exn_total:
  "\<forall>x\<in>set xs. \<exists>y. f x = Inr y \<Longrightarrow> \<exists>ys. map_exn f xs = Inr ys"
  by (induction xs) auto

text \<open>
  In the regular case, a molecule column of the frame other than the cluster column and
  \<open>df_index\<close>, no column named \<open>index\<close>, and a fingerprint for every cell of the molecule
  column, the call does return, whether the row labels are distinct or not.
\<close>

lemma cluster_dataframe_returns:
  assumes wf: "well_formed (h df)"
    and ni: "''index'' \<notin> set (names (h df))" "cluster_column \<noteq> ''index''"
    and mc: "molecule_column \<noteq> cluster_column" "molecule_column \<noteq> ''df_index''"
    and gm: "get_column (h df) molecule_column = Inr mols"
    and ok: "\<forall>x\<in>set mols. \<exists>y. fp x 2 1024 = Inr y"
  shows "\<exists>h'. cluster_dataframe fp sim h df molecule_column cluster_column cutoff = (h', Inr PyNone)"
proof -
  let ?idx = "index (h df)"
  let ?n = "length ?idx"
  let ?fr1 = "set_column (h df) cluster_column (replicate ?n (CInt (- 1)))"
  have n1: "''index'' \<notin> set (names ?fr1)" using ni by (simp add: set_column_names)
  then obtain df2a where ri: "reset_index ?fr1 = Inr df2a"
    and c2a: "columns df2a = (''index'', index ?fr1) # columns ?fr1"
    by (simp add: reset_index_def Let_def)
  let ?df2 = "set_column df2a ''df_index'' ?idx"
  have mm: "map_of (columns (h df)) molecule_column = Some mols"
    using gm by (auto simp: get_column_def split: option.splits)
  then have "molecule_column \<in> set (names (h df))"
    by (auto simp: names_def dest: map_of_SomeD intro: rev_image_eqI)
  then have "molecule_column \<noteq> ''index''" using ni by blast
  then have "map_of (columns ?df2) molecule_column = Some mols"
    using mc mm by (simp add: set_column_get c2a)
  then have "get_column ?df2 molecule_column = Inr mols" by (simp add: get_column_def)
  moreover obtain fps where "map_exn (\<lambda>x. fp x 2 1024) mols = Inr fps"
    using map_exn_total [OF ok] by blast
  ultimately have fo: "fingerprints_of fp ?df2 molecule_column = Inr fps"
    by (simp add: fingerprints_of_def)
  show ?thesis
    using cluster_dataframe_core_general
      [where h = h and df = df and sim = sim and cutoff = cutoff, OF wf ri fo]
    by blast
qed

section \<open>Properties of the data-frame functions\<close>


lemma sample_calculate_descriptors:
  "snd (calculate_descriptors sample_descList sample_calc sample_heap 0 ''mol'') = Inr PyNone"
  "names (fst (calculate_descriptors sample_descList sample_calc sample_heap 0 ''mol'') 0)
     = [''smiles'', ''mol'', ''NumOn'', ''NumBits'']"
  by code_simp+

lemma sample_add_mol_frame:
  "get_column (fst (add_mol_column sample_add_mol sample_heap 0 ''smiles'' ''mol'') 0) ''mol''
     = Inr [CMol [], CMol [], CMol []]"
  "get_column (sample_heap 0) ''mol''
     = Inr [CMol (sample_twins ! 0), CMol (sample_twins ! 1), CMol (sample_twins ! 2)]"
  by code_simp+

lemma sample_add_mol_column:
  "snd (add_mol_column sample_add_mol sample_heap 0 ''smiles'' ''mol'') = Inr (PyRef 0)"
  by code_simp




text \<open>
  Claim C6, as stated, fails on two frames of valid molecules. On a frame without rows
  the loop of line 75 does nothing and no column is appended. On a frame that has a
  column \<open>NumOn\<close> already, the descriptor of that name is written into this column: one
  column is appended for two descriptors, and a column that was there before is changed.
\<close>

theorem descriptors_not_always_appended:
  "snd (calculate_descriptors sample_descList sample_calc sample_empty_heap 0 ''mol'') = Inr PyNone \<and>
   names (fst (calculate_descriptors sample_descList sample_calc sample_empty_heap 0 ''mol'') 0)
     = [''mol''] \<and>
   snd (calculate_descriptors sample_descList sample_calc sample_clash_heap 0 ''mol'') = Inr PyNone \<and>
   names (sample_clash_heap 0) = [''smiles'', ''mol'', ''NumOn''] \<and>
   names (fst (calculate_descriptors sample_descList sample_calc sample_clash_heap 0 ''mol'') 0)
     = [''smiles'', ''mol'', ''NumOn'', ''NumBits''] \<and>
   get_column (sample_clash_heap 0) ''NumOn'' = Inr [CStr ''a'', CStr ''b'', CStr ''c''] \<and>
   get_column (fst (calculate_descriptors sample_descList sample_calc sample_clash_heap 0 ''mol'') 0)
     ''NumOn'' = Inr [CNum 3, CNum 3, CNum 3]"
  by code_simp

text \<open>
  Claim C6, amended. For every frame with at least one row, all rows holding valid
  molecules (the calculator returns one value per descriptor for each), and no column
  named like a descriptor of the (duplicate-free) descriptor list,
  \<open>calculate_descriptors\<close> returns \<open>None\<close> and leaves the frame with exactly one new column
  per descriptor, appended after the columns it had and in the order of the descriptor
  list; the columns it had are unchanged in name, place and content, and so are the row
  labels and every other frame of the store.
\<close>

theorem calculate_descriptors_appends:
  assumes "index (h df) \<noteq> []"
    and "distinct (map fst descList)"
    and "set (map fst descList) \<inter> set (names (h df)) = {}"
    and "\<forall>l\<in>set (index (h df)). \<exists>c cd.
            at_get (h df) l molecule_column = Inr c \<and>
            CalcDescriptors (map fst descList) c = Inr cd \<and>
            length cd = length descList"
  shows "\<exists>h'. calculate_descriptors descList CalcDescriptors h df molecule_column = (h', Inr PyNone) \<and>
           names (h' df) = names (h df) @ map fst descList \<and>
           take (length (columns (h df))) (columns (h' df)) = columns (h df) \<and>
           index (h' df) = index (h df) \<and>
           (\<forall>a. a \<noteq> df \<longrightarrow> h' a = h a)"
  using assms by (rule calculate_descriptors_appends_aux)

theorem calculate_descriptors_appends_witness:
  "index (sample_heap 0) = [CInt 7, CInt 3, CInt 5] \<and>
   map fst sample_descList = [''NumOn'', ''NumBits''] \<and>
   names (sample_heap 0) = [''smiles'', ''mol''] \<and>
   names (fst (calculate_descriptors sample_descList sample_calc sample_heap 0 ''mol'') 0)
     = [''smiles'', ''mol'', ''NumOn'', ''NumBits'']"
proof -
  have ix: "index (sample_heap 0) = [CInt 7, CInt 3, CInt 5]"
    by (simp add: sample_heap_def sample_frame_def)
  have ds: "map fst sample_descList = [''NumOn'', ''NumBits'']"
    by (simp add: sample_descList_def)
  have nm: "names (sample_heap 0) = [''smiles'', ''mol'']"
    by (simp add: sample_heap_def sample_frame_def names_def)
  have a: "index (sample_heap 0) \<noteq> []" unfolding ix by simp
  have b: "distinct (map fst sample_descList)" unfolding ds by simp
  have c: "set (map fst sample_descList) \<inter> set (names (sample_heap 0)) = {}"
    unfolding ds nm by simp
  have v: "\<forall>l\<in>set (index (sample_heap 0)). \<exists>c cd.
            at_get (sample_heap 0) l ''mol'' = Inr c \<and>
            sample_calc (map fst sample_descList) c = Inr cd \<and>
            length cd = length sample_descList"
    unfolding ix ds
    by (simp add: sample_heap_def sample_frame_def at_get_def sample_calc_def
        sample_descList_def sample_twins_def)
  obtain h' where
    "calculate_descriptors sample_descList sample_calc sample_heap 0 ''mol'' = (h', Inr PyNone)"
    "names (h' 0) = names (sample_heap 0) @ map fst sample_descList"
    using calculate_descriptors_appends
      [where h = sample_heap and df = 0 and descList = sample_descList
         and molecule_column = "''mol''" and CalcDescriptors = sample_calc, OF a b c v]
    by blast
  then show ?thesis using ix ds nm by simp
qed

text \<open>
  Claim C9. Whenever \<open>calculate_descriptors\<close> returns, its value is \<open>None\<close> and not the
  frame object \<open>df\<close>, while the store holds at the address of \<open>df\<close>, and nowhere else,
  the frame as the loop of lines 75 to 78 left it: the frame is changed in place. For
  a frame with at least one row of valid molecules and no column named like a
  descriptor the call does return \<open>None\<close>, and the frame at the address of \<open>df\<close> then has
  the descriptor columns. So a caller who binds the result to the variable of the frame
  holds \<open>None\<close> afterwards. Whenever \<open>add_mol_column\<close> returns, its value is the very frame
  object that was passed in, and that object is in the state
  \<open>AddMoleculeColumnToFrame\<close> left it in.
\<close>

theorem calculate_descriptors_returns_None:
  "(\<forall>h' v. calculate_descriptors descList CalcDescriptors h df molecule_column = (h', Inr v) \<longrightarrow>
       v = PyNone \<and> v \<noteq> PyRef df \<and>
       h' = h(df := fst (descriptor_rows CalcDescriptors (map fst descList) molecule_column
                           (index (h df)) (h df)))) \<and>
   (index (h df) \<noteq> [] \<and> distinct (map fst descList) \<and>
    set (map fst descList) \<inter> set (names (h df)) = {} \<and>
    (\<forall>l\<in>set (index (h df)). \<exists>c cd.
        at_get (h df) l molecule_column = Inr c \<and>
        CalcDescriptors (map fst descList) c = Inr cd \<and> length cd = length descList) \<longrightarrow>
      (\<exists>h'. calculate_descriptors descList CalcDescriptors h df molecule_column = (h', Inr PyNone) \<and>
            names (h' df) = names (h df) @ map fst descList)) \<and>
   (\<forall>h' v. add_mol_column AddMoleculeColumnToFrame h df smiles_col molecule_col = (h', Inr v) \<longrightarrow>
       v = PyRef df \<and>
       h' = h(df := fst (AddMoleculeColumnToFrame (h df) smiles_col molecule_col True)))"
proof (intro conjI)
  show "\<forall>h' v. calculate_descriptors descList CalcDescriptors h df molecule_column = (h', Inr v) \<longrightarrow>
       v = PyNone \<and> v \<noteq> PyRef df \<and>
       h' = h(df := fst (descriptor_rows CalcDescriptors (map fst descList) molecule_column
                           (index (h df)) (h df)))"
    using returns_strong_aux [of descList CalcDescriptors h df molecule_column] by blast
  show "\<forall>h' v. add_mol_column AddMoleculeColumnToFrame h df smiles_col molecule_col = (h', Inr v) \<longrightarrow>
       v = PyRef df \<and>
       h' = h(df := fst (AddMoleculeColumnToFrame (h df) smiles_col molecule_col True))"
    using returns_strong_aux [of descList CalcDescriptors h df molecule_column
        AddMoleculeColumnToFrame smiles_col molecule_col] by blast
  show "index (h df) \<noteq> [] \<and> distinct (map fst descList) \<and>
    set (map fst descList) \<inter> set (names (h df)) = {} \<and>
    (\<forall>l\<in>set (index (h df)). \<exists>c cd.
        at_get (h df) l molecule_column = Inr c \<and>
        CalcDescriptors (map fst descList) c = Inr cd \<and> length cd = length descList) \<longrightarrow>
      (\<exists>h'. calculate_descriptors descList CalcDescriptors h df molecule_column = (h', Inr PyNone) \<and>
            names (h' df) = names (h df) @ map fst descList)"
  proof
    assume a: "index (h df) \<noteq> [] \<and> distinct (map fst descList) \<and>
      set (map fst descList) \<inter> set (names (h df)) = {} \<and>
      (\<forall>l\<in>set (index (h df)). \<exists>c cd.
        at_get (h df) l molecule_column = Inr c \<and>
        CalcDescriptors (map fst descList) c = Inr cd \<and> length cd = length descList)"
    have "\<exists>h'. calculate_descriptors descList CalcDescriptors h df molecule_column = (h', Inr PyNone) \<and>
           names (h' df) = names (h df) @ map fst descList \<and>
           take (length (columns (h df))) (columns (h' df)) = columns (h df) \<and>
           index (h' df) = index (h df) \<and>
           (\<forall>a. a \<noteq> df \<longrightarrow> h' a = h a)"
      using a by (intro calculate_descriptors_appends_aux) blast+
    then show "\<exists>h'. calculate_descriptors descList CalcDescriptors h df molecule_column = (h', Inr PyNone) \<and>
            names (h' df) = names (h df) @ map fst descList"
      by blast
  qed
qed

theorem calculate_descriptors_returns_None_witness:
  "snd (calculate_descriptors sample_descList sample_calc sample_heap 0 ''mol'') = Inr PyNone \<and>
   names (sample_heap 0) = [''smiles'', ''mol''] \<and>
   names (fst (calculate_descriptors sample_descList sample_calc sample_heap 0 ''mol'') 0)
     = [''smiles'', ''mol'', ''NumOn'', ''NumBits''] \<and>
   snd (add_mol_column sample_add_mol sample_heap 0 ''smiles'' ''mol'') = Inr (PyRef 0) \<and>
   get_column (fst (add_mol_column sample_add_mol sample_heap 0 ''smiles'' ''mol'') 0) ''mol''
     = Inr [CMol [], CMol [], CMol []]"
proof -
  let ?c = "calculate_descriptors sample_descList sample_calc sample_heap 0 ''mol''"
  let ?a = "add_mol_column sample_add_mol sample_heap 0 ''smiles'' ''mol''"
  have c: "?c = (fst ?c, Inr PyNone)"
    using sample_calculate_descriptors(1) by (metis prod.collapse)
  have a: "?a = (fst ?a, Inr (PyRef 0))"
    using sample_add_mol_column by (metis prod.collapse)
  have nm: "names (sample_heap 0) = [''smiles'', ''mol'']"
    by (simp add: sample_heap_def sample_frame_def names_def)
  have "fst ?c = sample_heap(0 := fst (descriptor_rows sample_calc (map fst sample_descList) ''mol''
                           (index (sample_heap 0)) (sample_heap 0)))"
    "fst ?a = sample_heap(0 := fst (sample_add_mol (sample_heap 0) ''smiles'' ''mol'' True))"
    using calculate_descriptors_returns_None
      [of sample_descList sample_calc sample_heap 0 "''mol''" sample_add_mol "''smiles''" "''mol''"]
      c a by blast+
  then show ?thesis
    using sample_calculate_descriptors sample_add_mol_column sample_add_mol_frame(1) nm by blast
qed

end
